theory Spec2Isabelle
  imports Main
begin

section \<open>Errors, environment values and options (src/lib/index.ts, lines 1-108)\<close>

text \<open>
  The two error classes of the library. \<open>ValueError\<close> keeps the message it is given;
  the constructor of the library's \<open>SyntaxError\<close> prefixes its message with
  \<open>Invalid interpolation syntax; \<close> (lines 5-9), which \<open>mkSyntaxError\<close> writes out.
  \<open>TypeError\<close> is JavaScript's own: calling a property that is not a function throws
  it, which is what \<open>a.toString()\<close> in \<open>isObject\<close> (line 141) does on an object
  without a callable \<open>toString\<close>. Its message is the engine's and is left out.
\<close>

datatype error = ValueError string | SyntaxError string | TypeError

definition mkSyntaxError :: "string \<Rightarrow> error" where
  "mkSyntaxError message = SyntaxError (''Invalid interpolation syntax; '' @ message)"

text \<open>
  The declared type of an environment is a dictionary of strings, but the code is written
  for (and the test suite passes, through a cast) entries that are \<open>null\<close>,
  \<open>undefined\<close> or numbers, and \<open>env[name]\<close> (line 183) also finds what the environment
  inherits, which for an object literal are the functions of \<open>Object.prototype\<close>.
  \<open>jsval\<close> is the part of JavaScript's values the replacer can tell apart, which it does
  by \<open>== null\<close>, by truthiness and by \<open>toString()\<close>:
  \<^item> \<open>JNum n\<close> is the number \<open>n\<close>, an integer of magnitude below ten to the power 21,
    whose \<open>toString()\<close> is the decimal numeral (from there on JavaScript prints the
    exponent form, which the model does not follow; fractions, \<open>NaN\<close> and the
    infinities are not modelled);
  \<^item> \<open>JObj t\<close> is an object or a function, of which only the text \<open>t\<close> that its
    \<open>toString()\<close> returns matters here; it is neither nullish nor falsy.

  Strings are lists of characters: the expression only tells ASCII characters apart, so
  the encoding of the others does not matter.
\<close>

datatype jsval = JUndefined | JNull | JStr string | JNum int | JBool bool | JObj string

text \<open>
  An environment is a JavaScript object: its own properties, and the properties it
  inherits through its prototype chain. \<open>env[key]\<close> is the own property when there is
  one (also when its value is \<open>undefined\<close>), else the inherited one, else
  \<open>undefined\<close>.
\<close>

record Environment =
  own :: "string \<rightharpoonup> jsval"
  inherited :: "string \<rightharpoonup> jsval"

definition env_get :: "Environment \<Rightarrow> string \<Rightarrow> jsval" where
  "env_get env key =
     (case own env key of
        Some v \<Rightarrow> v
      | None \<Rightarrow> (case inherited env key of Some v \<Rightarrow> v | None \<Rightarrow> JUndefined))"

text \<open>
  What an object literal inherits: the properties of \<open>Object.prototype\<close>. All of them
  are built-in functions but \<open>__proto__\<close>, an accessor that yields the prototype itself.
  The text of a built-in function is the one Node.js prints (other engines differ in the
  white space). \<open>plain_object\<close> is the environment written as an object literal with the
  given entries, \<open>bare_object\<close> the one made with \<open>Object.create(null)\<close>, which inherits
  nothing.
\<close>

definition native_function :: "string \<Rightarrow> jsval" where
  "native_function f = JObj (''function '' @ f @ ''() { [native code] }'')"

definition object_prototype :: "string \<rightharpoonup> jsval" where
  "object_prototype = map_of
     [(''constructor'', native_function ''Object''),
      (''toString'', native_function ''toString''),
      (''valueOf'', native_function ''valueOf''),
      (''hasOwnProperty'', native_function ''hasOwnProperty''),
      (''isPrototypeOf'', native_function ''isPrototypeOf''),
      (''propertyIsEnumerable'', native_function ''propertyIsEnumerable''),
      (''toLocaleString'', native_function ''toLocaleString''),
      (''__proto__'', JObj ''[object Object]''),
      (''__defineGetter__'', native_function ''__defineGetter__''),
      (''__defineSetter__'', native_function ''__defineSetter__''),
      (''__lookupGetter__'', native_function ''__lookupGetter__''),
      (''__lookupSetter__'', native_function ''__lookupSetter__'')]"

definition plain_object :: "(string \<rightharpoonup> jsval) \<Rightarrow> Environment" where
  "plain_object entries = \<lparr>own = entries, inherited = object_prototype\<rparr>"

definition bare_object :: "(string \<rightharpoonup> jsval) \<Rightarrow> Environment" where
  "bare_object entries = \<lparr>own = entries, inherited = Map.empty\<rparr>"

text \<open>\<open>a == null\<close> holds of \<open>null\<close> and \<open>undefined\<close> and of nothing else.\<close>

fun is_nullish :: "jsval \<Rightarrow> bool" where
  "is_nullish JUndefined = True"
| "is_nullish JNull = True"
| "is_nullish _ = False"

text \<open>Truthiness, as \<open>||\<close> tests it: the empty string, zero and \<open>false\<close> are falsy.\<close>

fun truthy :: "jsval \<Rightarrow> bool" where
  "truthy JUndefined = False"
| "truthy JNull = False"
| "truthy (JStr s) = (s \<noteq> [])"
| "truthy (JNum n) = (n \<noteq> 0)"
| "truthy (JBool b) = b"
| "truthy (JObj t) = True"

definition digit_char :: "nat \<Rightarrow> char" where
  "digit_char d =
     (if d = 0 then CHR ''0'' else if d = 1 then CHR ''1'' else if d = 2 then CHR ''2''
      else if d = 3 then CHR ''3'' else if d = 4 then CHR ''4'' else if d = 5 then CHR ''5''
      else if d = 6 then CHR ''6'' else if d = 7 then CHR ''7'' else if d = 8 then CHR ''8''
      else CHR ''9'')"

fun digits :: "nat \<Rightarrow> string" where
  "digits n = (if n < 10 then [digit_char n] else digits (n div 10) @ [digit_char (n mod 10)])"

declare digits.simps [simp del]

text \<open>\<open>v.toString()\<close> for a value that has the method (every value but the nullish two,
  which the replacer never calls it on; they are given their \<open>String(v)\<close> form).\<close>

fun toString :: "jsval \<Rightarrow> string" where
  "toString (JStr s) = s"
| "toString (JNum n) = (if n < 0 then CHR ''-'' # digits (nat (- n)) else digits (nat n))"
| "toString (JBool b) = (if b then ''true'' else ''false'')"
| "toString JNull = ''null''"
| "toString JUndefined = ''undefined''"
| "toString (JObj t) = t"

text \<open>
  \<open>InternalOptions\<close> (line 102) without the callback: \<open>onMatchPlaceholder\<close> is modelled
  by the list of \<open>Match\<close> records it is called with, in call order, which every function
  below returns beside its result. The callback is taken to be a function that returns:
  the default \<open>noop\<close>, or the caller's. (A caller who passes
  \<open>onMatchPlaceholder: undefined\<close> replaces the default by \<open>undefined\<close> in the merge of
  lines 116-119, and the first call of line 198 then throws; such options are not
  modelled.)
\<close>

record InternalOptions =
  preserveEscaped :: bool
  preserveUndefined :: bool

record Operator =
  kind :: string
  fallback :: string

text \<open>The record handed to the callback (lines 41-68). \<open>name\<close> is optional here because
  \<open>name1 || name2\<close> is \<open>undefined\<close> when both captures are falsy; \<open>rawvalue\<close> is the
  field \<open>value\<close> of the source.\<close>

record Match =
  placeholder :: string
  name :: "string option"
  rawvalue :: jsval
  operator :: "Operator option"
  escaped :: bool

section \<open>The regular expression of \<open>interpolateString\<close> (line 173)\<close>

text \<open>
  \<^verbatim>\<open>/(\$+)?\$(?:(\w+)|{(\w+)(?:([:\-\?]+)([^}]+))?})/g\<close>

  A backtracking matcher is modelled by the list of its successes in the order the engine
  tries them: a pattern maps the rest of the input to the list of (result, remaining
  input) pairs, and the match the engine reports is the head of the list.
\<close>

type_synonym 'a rx = "string \<Rightarrow> ('a \<times> string) list"

text \<open>The character classes of the expression. \<open>\w\<close> is \<open>[A-Za-z0-9_]\<close> (no \<open>u\<close> or
  \<open>i\<close> flag).\<close>

definition is_dollar :: "char \<Rightarrow> bool" where
  "is_dollar c = (c = CHR ''$'')"

definition is_word :: "char \<Rightarrow> bool" where
  "is_word c = (let n = (of_char c :: nat) in
     (48 \<le> n \<and> n \<le> 57) \<or> (65 \<le> n \<and> n \<le> 90) \<or> n = 95 \<or> (97 \<le> n \<and> n \<le> 122))"

definition is_opchar :: "char \<Rightarrow> bool" where
  "is_opchar c = (c = CHR '':'' \<or> c = CHR ''-'' \<or> c = CHR ''?'')"

definition not_rbrace :: "char \<Rightarrow> bool" where
  "not_rbrace c = (c \<noteq> CHR ''}'')"

text \<open>A literal character.\<close>

definition rx_chr :: "char \<Rightarrow> unit rx" where
  "rx_chr c s = (case s of [] \<Rightarrow> [] | x # r \<Rightarrow> if x = c then [((), r)] else [])"

text \<open>\<open>X+\<close> for a character class \<open>X\<close>, greedy: the longest run first, then each shorter
  one down to a single character.\<close>

fun rx_plus :: "(char \<Rightarrow> bool) \<Rightarrow> string rx" where
  "rx_plus P [] = []"
| "rx_plus P (c # cs) =
     (if P c then map (\<lambda>(t, r). (c # t, r)) (rx_plus P cs) @ [([c], cs)] else [])"

text \<open>\<open>(...)?\<close>, greedy: the group first, then the empty match, whose capture is
  \<open>undefined\<close>.\<close>

definition rx_opt :: "'a rx \<Rightarrow> 'a option rx" where
  "rx_opt p s = map (\<lambda>(a, r). (Some a, r)) (p s) @ [(None, s)]"

text \<open>Sequence, alternative (left first) and the end of a pattern.\<close>

definition rx_seq :: "'a rx \<Rightarrow> ('a \<Rightarrow> 'b rx) \<Rightarrow> 'b rx" where
  "rx_seq p f s = concat (map (\<lambda>(a, r). f a r) (p s))"

definition rx_alt :: "'a rx \<Rightarrow> 'a rx \<Rightarrow> 'a rx" where
  "rx_alt p q s = p s @ q s"

definition rx_ret :: "'a \<Rightarrow> 'a rx" where
  "rx_ret a s = [(a, s)]"

text \<open>The five capture groups, in the order the replacer destructures them (line 176).\<close>

record Groups =
  g_escaped :: "string option"
  g_name1 :: "string option"
  g_name2 :: "string option"
  g_kind :: "string option"
  g_fallback :: "string option"

definition operator_rx :: "(string \<times> string) rx" where
  "operator_rx =
     rx_seq (rx_plus is_opchar) (\<lambda>k.
     rx_seq (rx_plus not_rbrace) (\<lambda>f.
     rx_ret (k, f)))"

text \<open>The two alternatives after the introducing \<open>$\<close>: \<open>(\w+)\<close> and
  \<open>{(\w+)(?:([:\-\?]+)([^}]+))?}\<close>. A group that takes no part in the match is
  \<open>undefined\<close>.\<close>

definition name_rx :: "string option \<Rightarrow> Groups rx" where
  "name_rx esc =
     rx_seq (rx_plus is_word) (\<lambda>n1.
     rx_ret \<lparr>g_escaped = esc, g_name1 = Some n1, g_name2 = None,
             g_kind = None, g_fallback = None\<rparr>)"

definition braced_rx :: "string option \<Rightarrow> Groups rx" where
  "braced_rx esc =
     rx_seq (rx_chr CHR ''{'') (\<lambda>_.
     rx_seq (rx_plus is_word) (\<lambda>n2.
     rx_seq (rx_opt operator_rx) (\<lambda>opr.
     rx_seq (rx_chr CHR ''}'') (\<lambda>_.
     rx_ret \<lparr>g_escaped = esc, g_name1 = None, g_name2 = Some n2,
             g_kind = map_option fst opr, g_fallback = map_option snd opr\<rparr>))))"

text \<open>\<open>\$(?:...|...)\<close>: the introducing \<open>$\<close> and one of the two alternatives, the
  left one first.\<close>

definition after_dollar :: "string option \<Rightarrow> Groups rx" where
  "after_dollar esc =
     rx_seq (rx_chr CHR ''$'') (\<lambda>_. rx_alt (name_rx esc) (braced_rx esc))"

definition placeholder_rx :: "Groups rx" where
  "placeholder_rx = rx_seq (rx_opt (rx_plus is_dollar)) after_dollar"

text \<open>One attempt of the expression at the start of \<open>s\<close>: the first success, with the text
  it matched.\<close>

record RegexMatch =
  matched :: string
  groups :: Groups

definition first_success :: "'a list \<Rightarrow> 'a option" where
  "first_success xs = (case xs of [] \<Rightarrow> None | x # _ \<Rightarrow> Some x)"

definition match_at :: "string \<Rightarrow> (RegexMatch \<times> string) option" where
  "match_at s =
     (case first_success (placeholder_rx s) of
        None \<Rightarrow> None
      | Some (g, r) \<Rightarrow> Some (\<lparr>matched = take (length s - length r) s, groups = g\<rparr>, r))"

section \<open>\<open>String.prototype.replace\<close> with a global expression and a function (line 175)\<close>

text \<open>
  \<open>replace\<close> first collects every match, scanning from the left: where the expression
  matches, the next attempt starts at the end of the match; where it does not, the scan
  moves one character on. The text between matches is kept. The scan ends because a match
  is never empty here, which is proved below with the other facts about the expression.
\<close>

datatype piece = Lit char | Hit RegexMatch

function scan :: "string \<Rightarrow> piece list" where
  "scan [] = []"
| "scan (c # cs) =
     (case match_at (c # cs) of
        None \<Rightarrow> Lit c # scan cs
      | Some (m, r) \<Rightarrow> Hit m # scan r)"
  by pat_completeness auto

text \<open>The matches of a string, left to right.\<close>

fun hits :: "piece list \<Rightarrow> RegexMatch list" where
  "hits [] = []"
| "hits (Lit c # ps) = hits ps"
| "hits (Hit m # ps) = m # hits ps"

section \<open>The replacer of \<open>interpolateString\<close> (lines 175-249)\<close>

text \<open>A computation that calls the callback and may throw: the records the callback was
  called with, in order, and the error or the result.\<close>

type_synonym 'a traced = "Match list \<times> (error + 'a)"

text \<open>\<open>name1 || name2\<close>: the left operand when it is truthy (a non-empty string), the
  right one otherwise.\<close>

definition js_or :: "string option \<Rightarrow> string option \<Rightarrow> string option" where
  "js_or a b = (case a of None \<Rightarrow> b | Some x \<Rightarrow> if x \<noteq> [] then a else b)"

text \<open>The property key of \<open>env[name]\<close>: \<open>undefined\<close> reads the property named
  \<open>undefined\<close>.\<close>

definition prop_key :: "string option \<Rightarrow> string" where
  "prop_key n = (case n of None \<Rightarrow> ''undefined'' | Some x \<Rightarrow> x)"

text \<open>Line 182: \<open>const name = (name1 || name2)!\<close>.\<close>

definition name_of :: "Groups \<Rightarrow> string option" where
  "name_of g = js_or (g_name1 g) (g_name2 g)"

text \<open>Lines 183-184: \<open>rawValue\<close> and \<open>value\<close> for a name.\<close>

definition rawValue :: "Environment \<Rightarrow> string option \<Rightarrow> jsval" where
  "rawValue env n =
     (if is_nullish (env_get env (prop_key n)) then JUndefined else env_get env (prop_key n))"

definition resolved :: "Environment \<Rightarrow> string option \<Rightarrow> string" where
  "resolved env n =
     toString (if truthy (rawValue env n) then rawValue env n else JStr [])"

text \<open>A text between single quotes, as the two messages of \<open>SyntaxError\<close> have it.\<close>

definition quoted :: "string \<Rightarrow> string" where
  "quoted s = [CHR 0x27] @ s @ [CHR 0x27]"

text \<open>Lines 190-196: the operator of a match, or the error for a kind with no fallback.\<close>

definition mkOperator :: "RegexMatch \<Rightarrow> error + Operator option" where
  "mkOperator m =
     (case g_kind (groups m) of
        None \<Rightarrow> Inr None
      | Some k \<Rightarrow>
          (case g_fallback (groups m) of
             None \<Rightarrow> Inl (mkSyntaxError (''fallback not specified: '' @ quoted (matched m)))
           | Some f \<Rightarrow> Inr (Some \<lparr>kind = k, fallback = f\<rparr>)))"

text \<open>Lines 221-248: the \<open>switch\<close> on the operator's kind.\<close>

definition applyOperator :: "Operator \<Rightarrow> bool \<Rightarrow> bool \<Rightarrow> string \<Rightarrow> error + string" where
  "applyOperator opr isUndefined isEmpty val =
     (if kind opr = ''-'' then
        (if isUndefined then Inr (fallback opr) else Inr val)
      else if kind opr = ''?'' then
        (if isUndefined then Inl (ValueError (fallback opr)) else Inr val)
      else if kind opr = '':-'' then
        (if isUndefined \<or> isEmpty then Inr (fallback opr) else Inr val)
      else if kind opr = '':?'' then
        (if isUndefined \<or> isEmpty then Inl (ValueError (fallback opr)) else Inr val)
      else Inl (mkSyntaxError (''unknown operator: '' @ quoted (kind opr))))"

text \<open>The record passed to \<open>onMatchPlaceholder\<close> (lines 198-204).\<close>

definition mkMatch :: "Environment \<Rightarrow> RegexMatch \<Rightarrow> Operator option \<Rightarrow> Match" where
  "mkMatch env m opr =
     \<lparr>placeholder = matched m,
      name = name_of (groups m),
      rawvalue = rawValue env (name_of (groups m)),
      operator = opr,
      escaped = (g_escaped (groups m) \<noteq> None)\<rparr>"

definition replacer :: "Environment \<Rightarrow> InternalOptions \<Rightarrow> RegexMatch \<Rightarrow> string traced" where
  "replacer env opts m =
     (if g_name1 (groups m) = None \<and> g_name2 (groups m) = None then ([], Inr (matched m))
      else
        let nm = name_of (groups m);
            val = resolved env nm;
            isUndefined = is_nullish (rawValue env nm);
            isEmpty = (val = []);
            isEscaped = (g_escaped (groups m) \<noteq> None)
        in
          (case mkOperator m of
             Inl e \<Rightarrow> ([], Inl e)
           | Inr opr \<Rightarrow>
               ([mkMatch env m opr],
                if isEscaped then
                  (if preserveEscaped opts then Inr (matched m) else Inr (drop 1 (matched m)))
                else if isUndefined \<and> preserveUndefined opts then Inr (matched m)
                else
                  (case opr of
                     None \<Rightarrow> Inr val
                   | Some opr' \<Rightarrow> applyOperator opr' isUndefined isEmpty val))))"

section \<open>\<open>interpolateString\<close>, \<open>interpolate0\<close> and the entry points\<close>

text \<open>Running one traced computation after another: the second runs only if the first
  did not throw, and the callback's records accumulate in order.\<close>

definition bind_traced :: "'a traced \<Rightarrow> ('a \<Rightarrow> 'b traced) \<Rightarrow> 'b traced" where
  "bind_traced m f =
     (case m of
        (log, Inl e) \<Rightarrow> (log, Inl e)
      | (log, Inr x) \<Rightarrow> (case f x of (log', res) \<Rightarrow> (log @ log', res)))"

definition return_traced :: "'a \<Rightarrow> 'a traced" where
  "return_traced x = ([], Inr x)"

text \<open>Then \<open>replace\<close> calls the function on each match in order and joins the pieces; an
  exception of the function ends the call.\<close>

fun replace_pieces :: "(RegexMatch \<Rightarrow> string traced) \<Rightarrow> piece list \<Rightarrow> string traced" where
  "replace_pieces f [] = return_traced []"
| "replace_pieces f (Lit c # ps) =
     bind_traced (replace_pieces f ps) (\<lambda>u. return_traced (c # u))"
| "replace_pieces f (Hit m # ps) =
     bind_traced (f m) (\<lambda>t.
     bind_traced (replace_pieces f ps) (\<lambda>u.
     return_traced (t @ u)))"

definition interpolateString :: "string \<Rightarrow> Environment \<Rightarrow> InternalOptions \<Rightarrow> string traced" where
  "interpolateString str env opts = replace_pieces (replacer env opts) (scan str)"

text \<open>
  The values \<open>interpolate0\<close> tells apart (lines 131-165), by \<open>typeof\<close>,
  \<open>Array.isArray\<close> and the call \<open>a.toString()\<close>:
  \<^item> \<open>VStr\<close>: a string (\<open>typeof a === 'string'\<close>);
  \<^item> \<open>VArr\<close>: an array, with its elements;
  \<^item> \<open>VObj p kvs\<close>: any other object (\<open>typeof a === 'object'\<close>, not \<open>null\<close>), with its
    own enumerable entries \<open>kvs\<close> in the order of \<open>Object.entries\<close> (the keys of a
    JavaScript object are distinct, which nothing below needs) and with \<open>p\<close>, what its
    prototype chain provides as \<open>toString\<close>;
  \<^item> \<open>VFun t\<close>: a function (\<open>typeof a === 'function'\<close>) which, called as a method
    without arguments, returns the text \<open>t\<close>;
  \<^item> \<open>VOther\<close>: a primitive that is not a string (a number, a boolean, \<open>null\<close>,
    \<open>undefined\<close>, ...), opaque.

  The three kinds of prototype chain: that of an object literal, which inherits
  \<open>Object.prototype.toString\<close>; none, as after \<open>Object.create(null)\<close>; and any other
  chain with a \<open>toString\<close> method, by the text the method returns on this object: a
  \<open>Date\<close> gives its date, and an instance of a class that does not define \<open>toString\<close>
  gives \<open>[object Object]\<close>, the class inheriting \<open>Object.prototype.toString\<close>.
  (Objects that define \<open>Symbol.toStringTag\<close>, and \<open>toString\<close> methods that throw or
  do not return a string, are not modelled.)
\<close>

datatype proto = PlainProto | NullProto | OtherProto string

datatype 'a jvalue =
    VStr string
  | VArr "'a jvalue list"
  | VObj proto "(string \<times> 'a jvalue) list"
  | VFun string
  | VOther 'a

text \<open>
  \<open>a.toString()\<close> on an object that is not an array: the property \<open>toString\<close> is the
  object's own entry of that name when it has one, else the inherited one; calling it
  throws a \<open>TypeError\<close> unless it is a function.
\<close>

definition toString_call :: "proto \<Rightarrow> (string \<times> 'a jvalue) list \<Rightarrow> error + string" where
  "toString_call p kvs =
     (case map_of kvs ''toString'' of
        Some (VFun t) \<Rightarrow> Inr t
      | Some _ \<Rightarrow> Inl TypeError
      | None \<Rightarrow>
          (case p of
             PlainProto \<Rightarrow> Inr ''[object Object]''
           | NullProto \<Rightarrow> Inl TypeError
           | OtherProto t \<Rightarrow> Inr t))"

text \<open>
  \<open>isObject\<close> (lines 139-143) on an object that is not an array, the only values on
  which it gets as far as the call: \<open>a.toString()\<close> is compared with
  \<open>[object Object]\<close>, and an exception of the call is one of \<open>isObject\<close>. On a
  primitive and on a function it is false by \<open>a != null && typeof a === 'object'\<close>,
  and \<open>interpolate0\<close> does not call it on a string or an array, which \<open>isString\<close> and
  \<open>isArray\<close> (the constructors \<open>VStr\<close> and \<open>VArr\<close>) take first.
\<close>

definition isObject :: "proto \<Rightarrow> (string \<times> 'a jvalue) list \<Rightarrow> error + bool" where
  "isObject p kvs =
     (case toString_call p kvs of Inl e \<Rightarrow> Inl e | Inr t \<Rightarrow> Inr (t = ''[object Object]''))"

text \<open>
  \<open>interpolate0\<close> (lines 145-165). \<open>interpolate0_map\<close> is \<open>obj.map\<close> and
  \<open>interpolate0_entries\<close> is \<open>Object.entries(obj).map\<close>, each calling \<open>interpolate0\<close>
  on the elements from left to right and stopping at the first exception.
  \<open>Object.fromEntries\<close> builds an object literal: the result inherits from
  \<open>Object.prototype\<close> whatever the prototype of the input was.
\<close>

fun interpolate0 :: "'a jvalue \<Rightarrow> Environment \<Rightarrow> InternalOptions \<Rightarrow> 'a jvalue traced"
  and interpolate0_map ::
    "'a jvalue list \<Rightarrow> Environment \<Rightarrow> InternalOptions \<Rightarrow> 'a jvalue list traced"
  and interpolate0_entries ::
    "(string \<times> 'a jvalue) list \<Rightarrow> Environment \<Rightarrow> InternalOptions \<Rightarrow>
       (string \<times> 'a jvalue) list traced"
where
  "interpolate0 (VStr s) env opts =
     bind_traced (interpolateString s env opts) (\<lambda>s'. return_traced (VStr s'))"
| "interpolate0 (VArr xs) env opts =
     bind_traced (interpolate0_map xs env opts) (\<lambda>ys. return_traced (VArr ys))"
| "interpolate0 (VObj p kvs) env opts =
     (case isObject p kvs of
        Inl e \<Rightarrow> ([], Inl e)
      | Inr True \<Rightarrow>
          bind_traced (interpolate0_entries kvs env opts) (\<lambda>kvs'.
          return_traced (VObj PlainProto kvs'))
      | Inr False \<Rightarrow> return_traced (VObj p kvs))"
| "interpolate0 (VFun t) env opts = return_traced (VFun t)"
| "interpolate0 (VOther x) env opts = return_traced (VOther x)"
| "interpolate0_map [] env opts = return_traced []"
| "interpolate0_map (x # xs) env opts =
     bind_traced (interpolate0 x env opts) (\<lambda>y.
     bind_traced (interpolate0_map xs env opts) (\<lambda>ys.
     return_traced (y # ys)))"
| "interpolate0_entries [] env opts = return_traced []"
| "interpolate0_entries ((k, v) # kvs) env opts =
     bind_traced (interpolate0 v env opts) (\<lambda>v'.
     bind_traced (interpolate0_entries kvs env opts) (\<lambda>kvs'.
     return_traced ((k, v') # kvs')))"

text \<open>The caller's options (lines 70-96, without the callback) and their merge with
  \<open>defaultOptions\<close> (lines 104-119): a field that is absent, or \<open>undefined\<close>, counts as
  \<open>false\<close>.\<close>

record Options =
  opt_preserveEscaped :: "bool option"
  opt_preserveUndefined :: "bool option"

definition mergeOptions :: "Options option \<Rightarrow> InternalOptions" where
  "mergeOptions options =
     (case options of
        None \<Rightarrow> \<lparr>preserveEscaped = False, preserveUndefined = False\<rparr>
      | Some o' \<Rightarrow>
          \<lparr>preserveEscaped = (case opt_preserveEscaped o' of None \<Rightarrow> False | Some b \<Rightarrow> b),
           preserveUndefined = (case opt_preserveUndefined o' of None \<Rightarrow> False | Some b \<Rightarrow> b)\<rparr>)"

definition makeInterpolator ::
  "Environment \<Rightarrow> Options option \<Rightarrow> 'a jvalue \<Rightarrow> 'a jvalue traced" where
  "makeInterpolator env options = (\<lambda>obj. interpolate0 obj env (mergeOptions options))"

definition interpolate ::
  "'a jvalue \<Rightarrow> Environment \<Rightarrow> Options option \<Rightarrow> 'a jvalue traced" where
  "interpolate obj env options = makeInterpolator env options obj"

section \<open>The environment of the test suite\<close>

text \<open>The environment every test of the repository runs in, and a run with the default
  options.\<close>

definition test_env :: Environment where
  "test_env = plain_object
     [''VAR'' \<mapsto> JStr ''value'', ''EMPTY'' \<mapsto> JStr [], ''NULL'' \<mapsto> JNull,
      ''UNDEFINED'' \<mapsto> JUndefined, ''NUMBER'' \<mapsto> JNum 5]"

definition run_test :: "string \<Rightarrow> error + string" where
  "run_test s = snd (interpolateString s test_env (mergeOptions None))"

section \<open>Vocabulary of the claims\<close>

text \<open>The names the placeholders of a string refer to (the keys the replacer reads in the
  environment), left to right, and those of all the strings of a value.\<close>

definition names_of_string :: "string \<Rightarrow> string list" where
  "names_of_string s = map (\<lambda>m. prop_key (name_of (groups m))) (hits (scan s))"

fun referenced :: "'a jvalue \<Rightarrow> string list"
  and referenced_list :: "'a jvalue list \<Rightarrow> string list"
  and referenced_entries :: "(string \<times> 'a jvalue) list \<Rightarrow> string list"
where
  "referenced (VStr s) = names_of_string s"
| "referenced (VArr xs) = referenced_list xs"
| "referenced (VObj p kvs) = referenced_entries kvs"
| "referenced (VFun t) = []"
| "referenced (VOther x) = []"
| "referenced_list [] = []"
| "referenced_list (x # xs) = referenced x @ referenced_list xs"
| "referenced_entries [] = []"
| "referenced_entries ((k, v) # kvs) = referenced v @ referenced_entries kvs"

text \<open>The first capture group for \<open>k\<close> extra \<open>$\<close> before the introducing one:
  \<open>undefined\<close> when there is none.\<close>

definition esc_of :: "nat \<Rightarrow> string option" where
  "esc_of k = (if k = 0 then None else Some (replicate k CHR ''$''))"

text \<open>The value trees all of whose objects are object literals with no key \<open>toString\<close>:
  the mappings on which \<open>isObject\<close> holds by \<open>Object.prototype.toString\<close>.\<close>

fun plain_tree :: "'a jvalue \<Rightarrow> bool"
  and plain_list :: "'a jvalue list \<Rightarrow> bool"
  and plain_entries :: "(string \<times> 'a jvalue) list \<Rightarrow> bool"
where
  "plain_tree (VStr s) = True"
| "plain_tree (VArr xs) = plain_list xs"
| "plain_tree (VObj p kvs) = (p = PlainProto \<and> map_of kvs ''toString'' = None \<and> plain_entries kvs)"
| "plain_tree (VFun t) = True"
| "plain_tree (VOther x) = True"
| "plain_list [] = True"
| "plain_list (x # xs) = (plain_tree x \<and> plain_list xs)"
| "plain_entries [] = True"
| "plain_entries ((k, v) # kvs) = (plain_tree v \<and> plain_entries kvs)"

section \<open>Properties of the expression\<close>

text \<open>
  What the successes of each pattern are, as sets: enough wherever the order of the
  attempts does not matter (what a match consumes, which groups take part).
\<close>

lemma set_rx_plus: "set (rx_plus P s) = {(t, r). t \<noteq> [] \<and> list_all P t \<and> s = t @ r}"
  by (induction s) (auto simp: Cons_eq_append_conv)

lemma set_rx_chr: "set (rx_chr c s) = {(u, r). s = c # r}"
  by (auto simp: rx_chr_def split: list.splits)

lemma set_rx_opt: "set (rx_opt p s) = insert (None, s) ((\<lambda>(a, r). (Some a, r)) ` set (p s))"
  by (auto simp: rx_opt_def)

lemma set_rx_seq: "set (rx_seq p f s) = (\<Union>(a, r) \<in> set (p s). set (f a r))"
  by (auto simp: rx_seq_def)

lemma set_rx_alt: "set (rx_alt p q s) = set (p s) \<union> set (q s)"
  by (simp add: rx_alt_def)

lemma set_rx_ret: "set (rx_ret a s) = {(a, s)}"
  by (simp add: rx_ret_def)

lemmas set_rx = set_rx_plus set_rx_chr set_rx_opt set_rx_seq set_rx_alt set_rx_ret

lemma in_operator_rx:
  "((k, f), r) \<in> set (operator_rx s) \<longleftrightarrow>
     k \<noteq> [] \<and> list_all is_opchar k \<and> f \<noteq> [] \<and> list_all not_rbrace f \<and> s = k @ f @ r"
  by (auto simp: operator_rx_def set_rx)

lemma in_name_rx:
  "(g, r) \<in> set (name_rx esc s) \<longleftrightarrow>
     (\<exists>n. n \<noteq> [] \<and> list_all is_word n \<and> s = n @ r \<and>
        g = \<lparr>g_escaped = esc, g_name1 = Some n, g_name2 = None,
             g_kind = None, g_fallback = None\<rparr>)"
  by (auto simp: name_rx_def set_rx)

lemma in_braced_rx:
  "(g, r) \<in> set (braced_rx esc s) \<longleftrightarrow>
     (\<exists>n. n \<noteq> [] \<and> list_all is_word n \<and>
        (s = CHR ''{'' # n @ CHR ''}'' # r \<and>
           g = \<lparr>g_escaped = esc, g_name1 = None, g_name2 = Some n,
                g_kind = None, g_fallback = None\<rparr> \<or>
         (\<exists>k f. k \<noteq> [] \<and> list_all is_opchar k \<and> f \<noteq> [] \<and> list_all not_rbrace f \<and>
            s = CHR ''{'' # n @ k @ f @ CHR ''}'' # r \<and>
            g = \<lparr>g_escaped = esc, g_name1 = None, g_name2 = Some n,
                 g_kind = Some k, g_fallback = Some f\<rparr>)))"
  unfolding braced_rx_def set_rx
  apply (rule iffI)
   apply (fastforce simp: in_operator_rx)
  apply (elim exE conjE disjE)
   apply (fastforce simp: in_operator_rx)
  apply (simp add: split_beta)
  apply (rule_tac x=n in exI)
  apply simp
  apply (rule_tac x="((k, f), CHR ''}'' # r)" in bexI)
   apply simp
  apply (simp add: in_operator_rx)
  done

lemma in_placeholder_rx:
  "(g, r) \<in> set (placeholder_rx s) \<longleftrightarrow>
     (\<exists>d body. list_all is_dollar d \<and> s = d @ CHR ''$'' # body \<and>
        ((g, r) \<in> set (name_rx (if d = [] then None else Some d) body) \<or>
         (g, r) \<in> set (braced_rx (if d = [] then None else Some d) body)))"
  unfolding placeholder_rx_def after_dollar_def set_rx
  apply (rule iffI)
   apply fastforce
  apply (elim exE conjE)
  apply (case_tac "d = []")
   apply fastforce
  apply (simp add: split_beta)
  apply (rule disjI2)
  apply (rule_tac x=d in exI)
  apply simp
  done

lemma match_at_SomeD:
  assumes "match_at s = Some (m, r)"
  shows "(groups m, r) \<in> set (placeholder_rx s)"
    and "matched m = take (length s - length r) s"
  using assms by (auto simp: match_at_def first_success_def split: list.splits)

lemma placeholder_rx_consumes:
  assumes "(g, r) \<in> set (placeholder_rx s)"
  shows "\<exists>u. u \<noteq> [] \<and> s = u @ r"
proof -
  from assms obtain d body where s: "s = d @ CHR ''$'' # body"
    and alt: "(g, r) \<in> set (name_rx (if d = [] then None else Some d) body) \<or>
              (g, r) \<in> set (braced_rx (if d = [] then None else Some d) body)"
    unfolding in_placeholder_rx by blast
  from alt obtain v where "body = v @ r"
    unfolding in_name_rx in_braced_rx by (elim disjE exE conjE) auto
  with s have "s = (d @ CHR ''$'' # v) @ r" by simp
  then show ?thesis by blast
qed

lemma match_at_shorter:
  assumes "match_at s = Some (m, r)"
  shows "length r < length s"
proof -
  from placeholder_rx_consumes [OF match_at_SomeD(1) [OF assms]]
  obtain u where "u \<noteq> []" "s = u @ r" by blast
  then show ?thesis by simp
qed

lemma match_at_matched:
  assumes "match_at s = Some (m, r)"
  shows "s = matched m @ r"
proof -
  from placeholder_rx_consumes [OF match_at_SomeD(1) [OF assms]]
  obtain u where "s = u @ r" by blast
  with match_at_SomeD(2) [OF assms] show ?thesis by simp
qed

text \<open>
  A match is never empty, so the scan of \<open>replace\<close> ends.
\<close>

termination scan
  by (relation "measure length") (auto dest: match_at_shorter)

declare scan.simps [simp del]

text \<open>
  In every match one of the two names took part and is a non-empty word, and a kind
  never comes without a fallback: the check of lines 191-194 cannot fail on a match.
\<close>

lemma match_groups:
  assumes "match_at s = Some (m, r)"
  shows "\<exists>n. n \<noteq> [] \<and> list_all is_word n \<and> name_of (groups m) = Some n \<and>
           (g_name1 (groups m) = Some n \<or> g_name2 (groups m) = Some n)"
    and "\<exists>opr. mkOperator m = Inr opr"
proof -
  from match_at_SomeD(1) [OF assms] obtain d body
    where alt: "(groups m, r) \<in> set (name_rx (if d = [] then None else Some d) body) \<or>
                (groups m, r) \<in> set (braced_rx (if d = [] then None else Some d) body)"
    unfolding in_placeholder_rx by blast
  then show "\<exists>n. n \<noteq> [] \<and> list_all is_word n \<and> name_of (groups m) = Some n \<and>
           (g_name1 (groups m) = Some n \<or> g_name2 (groups m) = Some n)"
    unfolding in_name_rx in_braced_rx
    by (elim disjE exE conjE) (auto simp: name_of_def js_or_def)
  from alt show "\<exists>opr. mkOperator m = Inr opr"
    unfolding in_name_rx in_braced_rx
    by (elim disjE exE conjE) (auto simp: mkOperator_def)
qed

subsection \<open>The first success: which match the engine reports\<close>

lemma first_success_Cons [simp]: "first_success (x # xs) = Some x"
  by (simp add: first_success_def)

lemma first_success_Nil [simp]: "first_success [] = None"
  by (simp add: first_success_def)

lemma first_success_append:
  "first_success (xs @ ys) = (case first_success xs of None \<Rightarrow> first_success ys | Some x \<Rightarrow> Some x)"
  by (cases xs) simp_all

lemma first_success_SomeD: "first_success xs = Some x \<Longrightarrow> \<exists>zs. xs = x # zs"
  by (cases xs) simp_all

lemma first_rx_seq:
  assumes "first_success (p s) = Some (a, r)" and "first_success (f a r) = Some y"
  shows "first_success (rx_seq p f s) = Some y"
proof -
  from first_success_SomeD [OF assms(1)] obtain zs where "p s = (a, r) # zs" by blast
  with assms(2) show ?thesis by (simp add: rx_seq_def first_success_append)
qed

lemma first_rx_alt_left:
  "first_success (p s) = Some y \<Longrightarrow> first_success (rx_alt p q s) = Some y"
  by (simp add: rx_alt_def first_success_append)

lemma first_rx_alt_right:
  "p s = [] \<Longrightarrow> first_success (rx_alt p q s) = first_success (q s)"
  by (simp add: rx_alt_def)

lemma first_rx_opt_Some:
  "first_success (p s) = Some (a, r) \<Longrightarrow> first_success (rx_opt p s) = Some (Some a, r)"
  by (auto simp: rx_opt_def first_success_append dest!: first_success_SomeD)

lemma first_rx_opt_None:
  "p s = [] \<Longrightarrow> first_success (rx_opt p s) = Some (None, s)"
  by (simp add: rx_opt_def)

lemma first_rx_chr [simp]: "first_success (rx_chr c (c # r)) = Some ((), r)"
  by (simp add: rx_chr_def)

lemma first_rx_ret [simp]: "first_success (rx_ret a s) = Some (a, s)"
  by (simp add: rx_ret_def)

lemma rx_plus_Nil_iff: "rx_plus P s = [] \<longleftrightarrow> (s = [] \<or> \<not> P (hd s))"
  by (cases s) auto

lemma first_rx_plus:
  assumes "t \<noteq> []" and "list_all P t" and "r = [] \<or> \<not> P (hd r)"
  shows "first_success (rx_plus P (t @ r)) = Some (t, r)"
  using assms
proof (induction t)
  case Nil
  then show ?case by simp
next
  case (Cons c t)
  show ?case
  proof (cases "t = []")
    case True
    with Cons.prems have "rx_plus P (t @ r) = []"
      by (simp add: rx_plus_Nil_iff)
    with Cons.prems True show ?thesis by simp
  next
    case False
    with Cons have "first_success (rx_plus P (t @ r)) = Some (t, r)" by simp
    then obtain zs where "rx_plus P (t @ r) = (t, r) # zs"
      by (blast dest: first_success_SomeD)
    with Cons.prems show ?thesis by simp
  qed
qed

text \<open>
  Characters of one class are not in another.
\<close>

lemma is_word_dollar [simp]: "\<not> is_word CHR ''$''"
  by (simp add: is_word_def)

lemma is_dollar_dollar [simp]: "is_dollar CHR ''$''"
  by (simp add: is_dollar_def)

lemma is_word_lbrace [simp]: "\<not> is_word CHR ''{''"
  by (simp add: is_word_def)

lemma is_word_rbrace [simp]: "\<not> is_word CHR ''}''"
  by (simp add: is_word_def)

lemma is_opchar_rbrace [simp]: "\<not> is_opchar CHR ''}''"
  by (simp add: is_opchar_def)

lemma is_opchar_not_word: "is_opchar c \<Longrightarrow> \<not> is_word c"
  by (auto simp: is_opchar_def is_word_def)

lemma is_opchar_not_rbrace: "is_opchar c \<Longrightarrow> not_rbrace c"
  by (auto simp: is_opchar_def not_rbrace_def)

lemma is_word_not_rbrace: "is_word c \<Longrightarrow> not_rbrace c"
  by (auto simp: not_rbrace_def)

lemma not_rbrace_rbrace [simp]: "\<not> not_rbrace CHR ''}''"
  by (simp add: not_rbrace_def)

text \<open>
  The leading \<open>$\<close>: of \<open>k + 1\<close> of them before a name or a brace, the last one
  introduces the placeholder and the \<open>k\<close> before it are the first group. The engine
  first gives all of them to \<open>(\$+)\<close>, fails at \<open>\$\<close>, and gives one back.
\<close>

lemma alt_dollar_Nil: "rx_alt (name_rx e) (braced_rx e) (CHR ''$'' # r) = []"
  by (simp add: rx_alt_def name_rx_def braced_rx_def rx_seq_def rx_chr_def)

lemma after_dollar_simps:
  "after_dollar e [] = []"
  "after_dollar e (c # r) = (if c = CHR ''$'' then rx_alt (name_rx e) (braced_rx e) r else [])"
  by (simp_all add: after_dollar_def rx_seq_def rx_chr_def)

lemma placeholder_rx_unfold:
  "placeholder_rx s =
     concat (map (\<lambda>(t, r). after_dollar (Some t) r) (rx_plus is_dollar s)) @ after_dollar None s"
  by (simp add: placeholder_rx_def rx_seq_def rx_opt_def comp_def split_def)

lemma escaped_attempts:
  assumes "body = [] \<or> hd body \<noteq> CHR ''$''"
  shows "concat (map (\<lambda>(t, r). after_dollar (Some (pref @ t)) r)
           (rx_plus is_dollar (replicate (Suc j) CHR ''$'' @ body))) =
         (if j = 0 then []
          else rx_alt (name_rx (Some (pref @ replicate j CHR ''$'')))
                 (braced_rx (Some (pref @ replicate j CHR ''$''))) body)"
proof (induction j arbitrary: pref)
  case 0
  from assms have "rx_plus is_dollar body = []"
    by (auto simp: rx_plus_Nil_iff is_dollar_def)
  moreover from assms have "after_dollar e body = []" for e
    by (cases body) (auto simp: after_dollar_simps)
  ultimately show ?case by simp
next
  case (Suc j)
  have "concat (map (\<lambda>(t, r). after_dollar (Some (pref @ t)) r)
           (rx_plus is_dollar (replicate (Suc (Suc j)) CHR ''$'' @ body))) =
        concat (map (\<lambda>(t, r). after_dollar (Some ((pref @ [CHR ''$'']) @ t)) r)
           (rx_plus is_dollar (replicate (Suc j) CHR ''$'' @ body))) @
        after_dollar (Some (pref @ [CHR ''$''])) (replicate (Suc j) CHR ''$'' @ body)"
    by (simp add: comp_def split_def)
  also have "\<dots> = rx_alt (name_rx (Some (pref @ replicate (Suc j) CHR ''$'')))
                 (braced_rx (Some (pref @ replicate (Suc j) CHR ''$''))) body"
    unfolding Suc.IH
    by (cases j) (simp_all add: after_dollar_simps alt_dollar_Nil replicate_app_Cons_same)
  finally show ?case by simp
qed

lemma placeholder_rx_dollars:
  assumes "body = [] \<or> hd body \<noteq> CHR ''$''"
  shows "placeholder_rx (replicate k CHR ''$'' @ CHR ''$'' # body) =
         rx_alt (name_rx (esc_of k)) (braced_rx (esc_of k)) body"
proof -
  have s: "replicate k CHR ''$'' @ CHR ''$'' # body = replicate (Suc k) CHR ''$'' @ body"
    by (simp add: replicate_app_Cons_same)
  show ?thesis
    unfolding s placeholder_rx_unfold
    using escaped_attempts [OF assms, of "[]" k]
    by (cases k) (simp_all add: after_dollar_simps alt_dollar_Nil esc_of_def)
qed

text \<open>
  The three forms of a placeholder and the groups the engine reports for each: a bare
  name (the longest run of word characters), a name in braces, and a name in braces with
  a run of operator characters and a fallback that does not begin with one.
\<close>

lemma first_name_rx:
  assumes "n \<noteq> []" and "list_all is_word n" and "r = [] \<or> \<not> is_word (hd r)"
  shows "first_success (name_rx e (n @ r)) =
         Some (\<lparr>g_escaped = e, g_name1 = Some n, g_name2 = None,
                g_kind = None, g_fallback = None\<rparr>, r)"
  unfolding name_rx_def
  by (rule first_rx_seq, rule first_rx_plus [OF assms]) simp

lemma name_rx_lbrace: "name_rx e (CHR ''{'' # r) = []"
  by (simp add: name_rx_def rx_seq_def)

lemma first_braced_plain:
  assumes "n \<noteq> []" and "list_all is_word n"
  shows "first_success (braced_rx e (CHR ''{'' # n @ CHR ''}'' # r)) =
         Some (\<lparr>g_escaped = e, g_name1 = None, g_name2 = Some n,
                g_kind = None, g_fallback = None\<rparr>, r)"
proof -
  have name: "first_success (rx_plus is_word (n @ CHR ''}'' # r)) = Some (n, CHR ''}'' # r)"
    by (rule first_rx_plus [OF assms]) simp
  have "operator_rx (CHR ''}'' # r) = []"
    by (simp add: operator_rx_def rx_seq_def)
  then have opr: "first_success (rx_opt operator_rx (CHR ''}'' # r)) = Some (None, CHR ''}'' # r)"
    by (rule first_rx_opt_None)
  show ?thesis
    unfolding braced_rx_def
    apply (rule first_rx_seq, rule first_rx_chr)
    apply (rule first_rx_seq, rule name)
    apply (rule first_rx_seq, rule opr)
    apply (rule first_rx_seq, rule first_rx_chr)
    apply simp
    done
qed

lemma first_operator_rx:
  assumes "k \<noteq> []" and "list_all is_opchar k"
    and "f \<noteq> []" and "list_all not_rbrace f" and "\<not> is_opchar (hd f)"
  shows "first_success (operator_rx (k @ f @ CHR ''}'' # r)) = Some ((k, f), CHR ''}'' # r)"
proof -
  from assms(3,5) have "f @ CHR ''}'' # r = [] \<or> \<not> is_opchar (hd (f @ CHR ''}'' # r))"
    by simp
  from first_rx_plus [OF assms(1,2) this]
  have kind: "first_success (rx_plus is_opchar (k @ f @ CHR ''}'' # r)) =
              Some (k, f @ CHR ''}'' # r)" .
  have fb: "first_success (rx_plus not_rbrace (f @ CHR ''}'' # r)) = Some (f, CHR ''}'' # r)"
    by (rule first_rx_plus [OF assms(3,4)]) simp
  show ?thesis
    unfolding operator_rx_def
    apply (rule first_rx_seq, rule kind)
    apply (rule first_rx_seq, rule fb)
    apply simp
    done
qed

lemma first_braced_operator:
  assumes "n \<noteq> []" and "list_all is_word n"
    and "k \<noteq> []" and "list_all is_opchar k"
    and "f \<noteq> []" and "list_all not_rbrace f" and "\<not> is_opchar (hd f)"
  shows "first_success (braced_rx e (CHR ''{'' # n @ k @ f @ CHR ''}'' # r)) =
         Some (\<lparr>g_escaped = e, g_name1 = None, g_name2 = Some n,
                g_kind = Some k, g_fallback = Some f\<rparr>, r)"
proof -
  from assms(3,4) have "\<not> is_word (hd (k @ f @ CHR ''}'' # r))"
    by (cases k) (auto dest: is_opchar_not_word)
  then have "k @ f @ CHR ''}'' # r = [] \<or> \<not> is_word (hd (k @ f @ CHR ''}'' # r))" ..
  from first_rx_plus [OF assms(1,2) this]
  have name: "first_success (rx_plus is_word (n @ k @ f @ CHR ''}'' # r)) =
              Some (n, k @ f @ CHR ''}'' # r)" .
  have opr: "first_success (rx_opt operator_rx (k @ f @ CHR ''}'' # r)) =
             Some (Some (k, f), CHR ''}'' # r)"
    by (rule first_rx_opt_Some, rule first_operator_rx [OF assms(3-7)])
  show ?thesis
    unfolding braced_rx_def
    apply (rule first_rx_seq, rule first_rx_chr)
    apply (rule first_rx_seq, rule name)
    apply (rule first_rx_seq, rule opr)
    apply (rule first_rx_seq, rule first_rx_chr)
    apply simp
    done
qed

lemma match_at_first:
  assumes "first_success (placeholder_rx (u @ r)) = Some (g, r)"
  shows "match_at (u @ r) = Some (\<lparr>matched = u, groups = g\<rparr>, r)"
  using assms by (simp add: match_at_def)

lemma match_at_name:
  assumes "n \<noteq> []" and "list_all is_word n" and "r = [] \<or> \<not> is_word (hd r)"
  shows "match_at (replicate k CHR ''$'' @ CHR ''$'' # n @ r) =
         Some (\<lparr>matched = replicate k CHR ''$'' @ CHR ''$'' # n,
                groups = \<lparr>g_escaped = esc_of k, g_name1 = Some n, g_name2 = None,
                          g_kind = None, g_fallback = None\<rparr>\<rparr>, r)"
proof -
  from assms(1,2) have "hd (n @ r) \<noteq> CHR ''$''"
    by (cases n) auto
  then have "placeholder_rx (replicate k CHR ''$'' @ CHR ''$'' # n @ r) =
             rx_alt (name_rx (esc_of k)) (braced_rx (esc_of k)) (n @ r)"
    by (intro placeholder_rx_dollars) simp
  moreover have "first_success (rx_alt (name_rx (esc_of k)) (braced_rx (esc_of k)) (n @ r)) =
        Some (\<lparr>g_escaped = esc_of k, g_name1 = Some n, g_name2 = None,
               g_kind = None, g_fallback = None\<rparr>, r)"
    by (rule first_rx_alt_left, rule first_name_rx [OF assms])
  ultimately
  have "first_success (placeholder_rx ((replicate k CHR ''$'' @ CHR ''$'' # n) @ r)) =
        Some (\<lparr>g_escaped = esc_of k, g_name1 = Some n, g_name2 = None,
               g_kind = None, g_fallback = None\<rparr>, r)"
    by simp
  from match_at_first [OF this] show ?thesis by simp
qed

lemma match_at_braced:
  assumes "n \<noteq> []" and "list_all is_word n"
  shows "match_at (replicate k CHR ''$'' @ ''${'' @ n @ ''}'' @ r) =
         Some (\<lparr>matched = replicate k CHR ''$'' @ ''${'' @ n @ ''}'',
                groups = \<lparr>g_escaped = esc_of k, g_name1 = None, g_name2 = Some n,
                          g_kind = None, g_fallback = None\<rparr>\<rparr>, r)"
proof -
  have "placeholder_rx (replicate k CHR ''$'' @ CHR ''$'' # CHR ''{'' # n @ CHR ''}'' # r) =
        rx_alt (name_rx (esc_of k)) (braced_rx (esc_of k)) (CHR ''{'' # n @ CHR ''}'' # r)"
    by (intro placeholder_rx_dollars) simp
  with first_braced_plain [OF assms, of "esc_of k" r]
  have "first_success (placeholder_rx ((replicate k CHR ''$'' @ ''${'' @ n @ ''}'') @ r)) =
        Some (\<lparr>g_escaped = esc_of k, g_name1 = None, g_name2 = Some n,
               g_kind = None, g_fallback = None\<rparr>, r)"
    by (simp add: first_rx_alt_right name_rx_lbrace)
  from match_at_first [OF this] show ?thesis by simp
qed

lemma match_at_braced_operator:
  assumes "n \<noteq> []" and "list_all is_word n"
    and "k \<noteq> []" and "list_all is_opchar k"
    and "f \<noteq> []" and "list_all not_rbrace f" and "\<not> is_opchar (hd f)"
  shows "match_at (replicate j CHR ''$'' @ ''${'' @ n @ k @ f @ ''}'' @ r) =
         Some (\<lparr>matched = replicate j CHR ''$'' @ ''${'' @ n @ k @ f @ ''}'',
                groups = \<lparr>g_escaped = esc_of j, g_name1 = None, g_name2 = Some n,
                          g_kind = Some k, g_fallback = Some f\<rparr>\<rparr>, r)"
proof -
  have "placeholder_rx (replicate j CHR ''$'' @ CHR ''$'' # CHR ''{'' # n @ k @ f @ CHR ''}'' # r) =
        rx_alt (name_rx (esc_of j)) (braced_rx (esc_of j)) (CHR ''{'' # n @ k @ f @ CHR ''}'' # r)"
    by (intro placeholder_rx_dollars) simp
  with first_braced_operator [OF assms, of "esc_of j" r]
  have "first_success (placeholder_rx ((replicate j CHR ''$'' @ ''${'' @ n @ k @ f @ ''}'') @ r)) =
        Some (\<lparr>g_escaped = esc_of j, g_name1 = None, g_name2 = Some n,
               g_kind = Some k, g_fallback = Some f\<rparr>, r)"
    by (simp add: first_rx_alt_right name_rx_lbrace)
  from match_at_first [OF this] show ?thesis by simp
qed

text \<open>
  Operator characters and nothing after them: the engine first gives the whole run to
  the kind, finds no character for the fallback, and gives the last character of the
  run back.
\<close>

lemma rx_plus_snoc:
  assumes "t \<noteq> []" and "list_all P t" and "P c" and "r = [] \<or> \<not> P (hd r)"
  shows "\<exists>zs. rx_plus P (t @ c # r) = (t @ [c], r) # (t, c # r) # zs"
  using assms(1,2)
proof (induction t)
  case Nil
  then show ?case by simp
next
  case (Cons x t)
  from assms(4) have r: "rx_plus P r = []" by (simp add: rx_plus_Nil_iff)
  show ?case
  proof (cases "t = []")
    case True
    with Cons.prems assms(3) r show ?thesis by simp
  next
    case False
    with Cons obtain zs where "rx_plus P (t @ c # r) = (t @ [c], r) # (t, c # r) # zs"
      by auto
    with Cons.prems show ?thesis by simp
  qed
qed

lemma first_operator_rx_backtrack:
  assumes "k \<noteq> []" and "list_all is_opchar k" and "is_opchar c"
  shows "first_success (operator_rx (k @ c # CHR ''}'' # r)) = Some ((k, [c]), CHR ''}'' # r)"
proof -
  from rx_plus_snoc [OF assms, of "CHR ''}'' # r"]
  obtain zs where "rx_plus is_opchar (k @ c # CHR ''}'' # r) =
      (k @ [c], CHR ''}'' # r) # (k, c # CHR ''}'' # r) # zs"
    by auto
  moreover from assms(3) have "not_rbrace c" by (rule is_opchar_not_rbrace)
  ultimately show ?thesis
    by (simp add: operator_rx_def rx_seq_def rx_ret_def)
qed

lemma first_braced_backtrack:
  assumes "n \<noteq> []" and "list_all is_word n"
    and "k \<noteq> []" and "list_all is_opchar k" and "is_opchar c"
  shows "first_success (braced_rx e (CHR ''{'' # n @ k @ c # CHR ''}'' # r)) =
         Some (\<lparr>g_escaped = e, g_name1 = None, g_name2 = Some n,
                g_kind = Some k, g_fallback = Some [c]\<rparr>, r)"
proof -
  from assms(3,4) have "\<not> is_word (hd (k @ c # CHR ''}'' # r))"
    by (cases k) (auto dest: is_opchar_not_word)
  then have "k @ c # CHR ''}'' # r = [] \<or> \<not> is_word (hd (k @ c # CHR ''}'' # r))" ..
  from first_rx_plus [OF assms(1,2) this]
  have name: "first_success (rx_plus is_word (n @ k @ c # CHR ''}'' # r)) =
              Some (n, k @ c # CHR ''}'' # r)" .
  have opr: "first_success (rx_opt operator_rx (k @ c # CHR ''}'' # r)) =
             Some (Some (k, [c]), CHR ''}'' # r)"
    by (rule first_rx_opt_Some, rule first_operator_rx_backtrack [OF assms(3-5)])
  show ?thesis
    unfolding braced_rx_def
    apply (rule first_rx_seq, rule first_rx_chr)
    apply (rule first_rx_seq, rule name)
    apply (rule first_rx_seq, rule opr)
    apply (rule first_rx_seq, rule first_rx_chr)
    apply simp
    done
qed

lemma match_at_braced_backtrack:
  assumes "n \<noteq> []" and "list_all is_word n"
    and "k \<noteq> []" and "list_all is_opchar k" and "is_opchar c"
  shows "match_at (replicate j CHR ''$'' @ ''${'' @ n @ k @ [c] @ ''}'' @ r) =
         Some (\<lparr>matched = replicate j CHR ''$'' @ ''${'' @ n @ k @ [c] @ ''}'',
                groups = \<lparr>g_escaped = esc_of j, g_name1 = None, g_name2 = Some n,
                          g_kind = Some k, g_fallback = Some [c]\<rparr>\<rparr>, r)"
proof -
  have "placeholder_rx (replicate j CHR ''$'' @ CHR ''$'' # CHR ''{'' # n @ k @ c # CHR ''}'' # r) =
        rx_alt (name_rx (esc_of j)) (braced_rx (esc_of j)) (CHR ''{'' # n @ k @ c # CHR ''}'' # r)"
    by (intro placeholder_rx_dollars) simp
  with first_braced_backtrack [OF assms, of "esc_of j" r]
  have "first_success (placeholder_rx ((replicate j CHR ''$'' @ ''${'' @ n @ k @ [c] @ ''}'') @ r)) =
        Some (\<lparr>g_escaped = esc_of j, g_name1 = None, g_name2 = Some n,
               g_kind = Some k, g_fallback = Some [c]\<rparr>, r)"
    by (simp add: first_rx_alt_right name_rx_lbrace)
  from match_at_first [OF this] show ?thesis by simp
qed

text \<open>
  The text between the name and the closing brace, when it begins with an operator
  character: the run of operator characters at its start, and what follows the run. The
  expression gives the run to the kind and the rest to the fallback; when nothing
  follows the run, it gives the last character of the run back to the fallback.
\<close>

lemma match_at_operator_body:
  assumes "n \<noteq> []" and "list_all is_word n"
    and "run \<noteq> []" and "list_all is_opchar run"
    and "list_all not_rbrace rest" and "rest = [] \<or> \<not> is_opchar (hd rest)"
    and "rest \<noteq> [] \<or> 2 \<le> length run"
  shows "match_at (''${'' @ n @ run @ rest @ ''}'' @ r) =
         Some (\<lparr>matched = ''${'' @ n @ run @ rest @ ''}'',
                groups = \<lparr>g_escaped = None, g_name1 = None, g_name2 = Some n,
                          g_kind = Some (if rest = [] then butlast run else run),
                          g_fallback = Some (if rest = [] then [last run] else rest)\<rparr>\<rparr>, r)"
proof (cases "rest = []")
  case False
  with assms(6) have "\<not> is_opchar (hd rest)" by simp
  from match_at_braced_operator [OF assms(1-4) False assms(5) this, of 0 r] False
  show ?thesis by (simp add: esc_of_def)
next
  case True
  from assms(3) have run: "butlast run @ [last run] = run" by simp
  from True assms(7) have "2 \<le> length run" by simp
  then have b: "butlast run \<noteq> []" by (cases run; cases "tl run") auto
  from assms(3,4) have k: "list_all is_opchar (butlast run)"
    by (auto simp: list_all_iff dest: in_set_butlastD)
  from assms(3,4) have c: "is_opchar (last run)"
    by (simp add: list_all_iff)
  have "match_at (''${'' @ n @ (butlast run @ [last run]) @ ''}'' @ r) =
         Some (\<lparr>matched = ''${'' @ n @ (butlast run @ [last run]) @ ''}'',
                groups = \<lparr>g_escaped = None, g_name1 = None, g_name2 = Some n,
                          g_kind = Some (butlast run), g_fallback = Some [last run]\<rparr>\<rparr>, r)"
    using match_at_braced_backtrack [OF assms(1,2) b k c, of 0 r]
    by (simp add: esc_of_def)
  then show ?thesis unfolding run using True by simp
qed

text \<open>
  A brace form with an operator is matched up to its closing brace however its kind and
  fallback are told apart; a brace form with a single operator character and nothing
  after it is not matched.
\<close>

lemma first_rbrace:
  assumes "list_all not_rbrace a" and "list_all not_rbrace b"
    and "a @ CHR ''}'' # r1 = b @ CHR ''}'' # r2"
  shows "a = b \<and> r1 = r2"
proof -
  from assms(1) have "takeWhile not_rbrace (a @ CHR ''}'' # r1) = a"
    by (simp add: takeWhile_tail list_all_iff)
  moreover from assms(2) have "takeWhile not_rbrace (b @ CHR ''}'' # r2) = b"
    by (simp add: takeWhile_tail list_all_iff)
  ultimately have "a = b" using assms(3) by simp
  with assms(3) show ?thesis by simp
qed

lemma word_prefix:
  assumes "list_all is_word a" and "list_all is_word b"
    and "is_opchar c" and "is_opchar d"
    and "a @ c # r1 = b @ d # r2"
  shows "a = b \<and> c # r1 = d # r2"
proof -
  from assms(1,3) have "takeWhile is_word (a @ c # r1) = a"
    by (simp add: takeWhile_tail list_all_iff is_opchar_not_word)
  moreover from assms(2,4) have "takeWhile is_word (b @ d # r2) = b"
    by (simp add: takeWhile_tail list_all_iff is_opchar_not_word)
  ultimately have "a = b" using assms(5) by simp
  with assms(5) show ?thesis by simp
qed

lemma match_at_braced_any:
  assumes "n \<noteq> []" and "list_all is_word n"
    and "k \<noteq> []" and "list_all is_opchar k"
    and "f \<noteq> []" and "list_all not_rbrace f"
  shows "\<exists>g. match_at (replicate j CHR ''$'' @ ''${'' @ n @ k @ f @ ''}'') =
               Some (\<lparr>matched = replicate j CHR ''$'' @ ''${'' @ n @ k @ f @ ''}'', groups = g\<rparr>, []) \<and>
             g_escaped g = esc_of j"
proof -
  let ?body = "CHR ''{'' # n @ k @ f @ ''}''"
  let ?s = "replicate j CHR ''$'' @ CHR ''$'' # ?body"
  have rx: "placeholder_rx ?s = braced_rx (esc_of j) ?body"
    using placeholder_rx_dollars [of ?body j]
    by (simp add: rx_alt_def name_rx_lbrace)
  from assms have "(\<lparr>g_escaped = esc_of j, g_name1 = None, g_name2 = Some n,
                     g_kind = Some k, g_fallback = Some f\<rparr>, []) \<in> set (braced_rx (esc_of j) ?body)"
    unfolding in_braced_rx by auto
  then have "braced_rx (esc_of j) ?body \<noteq> []" by auto
  then obtain g r zs where hd: "braced_rx (esc_of j) ?body = (g, r) # zs"
    by (cases "braced_rx (esc_of j) ?body") auto
  then have mem: "(g, r) \<in> set (braced_rx (esc_of j) ?body)" by simp
  have all: "list_all not_rbrace (n @ k @ f)"
    using assms(2,4,6)
    by (auto simp: list_all_iff dest: is_word_not_rbrace is_opchar_not_rbrace)
  from mem have "r = [] \<and> g_escaped g = esc_of j"
  proof (unfold in_braced_rx, elim exE conjE disjE)
    fix n'
    assume n': "list_all is_word n'"
      and eq: "?body = CHR ''{'' # n' @ CHR ''}'' # r"
      and g: "g = \<lparr>g_escaped = esc_of j, g_name1 = None, g_name2 = Some n',
                    g_kind = None, g_fallback = None\<rparr>"
    from n' have "list_all not_rbrace n'"
      by (auto simp: list_all_iff dest: is_word_not_rbrace)
    from first_rbrace [OF all this, of "[]" r] eq g
    show ?thesis by simp
  next
    fix n' k' f'
    assume n': "list_all is_word n'" and k': "list_all is_opchar k'"
      and f': "list_all not_rbrace f'"
      and eq: "?body = CHR ''{'' # n' @ k' @ f' @ CHR ''}'' # r"
      and g: "g = \<lparr>g_escaped = esc_of j, g_name1 = None, g_name2 = Some n',
                    g_kind = Some k', g_fallback = Some f'\<rparr>"
    from n' k' f' have "list_all not_rbrace (n' @ k' @ f')"
      by (auto simp: list_all_iff dest: is_word_not_rbrace is_opchar_not_rbrace)
    from first_rbrace [OF all this, of "[]" r] eq g
    show ?thesis by simp
  qed
  with hd rx have "first_success (placeholder_rx ((replicate j CHR ''$'' @ ''${'' @ n @ k @ f @ ''}'') @ [])) =
                   Some (g, [])"
    by simp
  from match_at_first [OF this] \<open>r = [] \<and> g_escaped g = esc_of j\<close>
  show ?thesis by auto
qed

lemma match_at_form:
  assumes "n \<noteq> []" and "list_all is_word n"
    and "form = n \<or> form = ''{'' @ n @ ''}'' \<or>
         (form = ''{'' @ n @ ops @ f @ ''}'' \<and> ops \<noteq> [] \<and> list_all is_opchar ops \<and>
          f \<noteq> [] \<and> list_all not_rbrace f)"
  shows "\<exists>g. match_at (replicate j CHR ''$'' @ CHR ''$'' # form) =
               Some (\<lparr>matched = replicate j CHR ''$'' @ CHR ''$'' # form, groups = g\<rparr>, []) \<and>
             g_escaped g = esc_of j"
  using assms(3)
proof (elim disjE conjE)
  assume "form = n"
  with match_at_name [OF assms(1,2), of "[]" j] show ?thesis by simp
next
  assume "form = ''{'' @ n @ ''}''"
  with match_at_braced [OF assms(1,2), of j "[]"] show ?thesis by simp
next
  assume "form = ''{'' @ n @ ops @ f @ ''}''" "ops \<noteq> []" "list_all is_opchar ops"
    "f \<noteq> []" "list_all not_rbrace f"
  with match_at_braced_any [OF assms(1,2), of ops f j] show ?thesis by simp
qed

lemma lone_operator_no_match:
  assumes "n \<noteq> []" and "list_all is_word n" and "is_opchar c"
  shows "match_at (''${'' @ n @ [c] @ ''}'') = None"
proof -
  let ?body = "CHR ''{'' # n @ [c] @ ''}''"
  have rx: "placeholder_rx (CHR ''$'' # ?body) = braced_rx None ?body"
    using placeholder_rx_dollars [of ?body 0]
    by (simp add: rx_alt_def name_rx_lbrace esc_of_def)
  have all: "list_all not_rbrace (n @ [c])"
    using assms(2,3)
    by (auto simp: list_all_iff dest: is_word_not_rbrace is_opchar_not_rbrace)
  have "set (braced_rx None ?body) = {}"
  proof (rule ccontr)
    assume "set (braced_rx None ?body) \<noteq> {}"
    then obtain g r where "(g, r) \<in> set (braced_rx None ?body)"
      by (cases "braced_rx None ?body") auto
    then show False
    proof (unfold in_braced_rx, elim exE conjE disjE)
      fix n'
      assume n': "list_all is_word n'" and eq: "?body = CHR ''{'' # n' @ CHR ''}'' # r"
      from n' have "list_all not_rbrace n'"
        by (auto simp: list_all_iff dest: is_word_not_rbrace)
      from first_rbrace [OF all this, of "[]" r] eq have "n @ [c] = n'" by simp
      with n' have "is_word c" by (auto simp: list_all_iff)
      with assms(3) show False by (simp add: is_opchar_not_word)
    next
      fix n' k' f'
      assume n': "list_all is_word n'" and k': "k' \<noteq> []" "list_all is_opchar k'"
        and f': "f' \<noteq> []" "list_all not_rbrace f'"
        and eq: "?body = CHR ''{'' # n' @ k' @ f' @ CHR ''}'' # r"
      from n' k' f' have "list_all not_rbrace (n' @ k' @ f')"
        by (auto simp: list_all_iff dest: is_word_not_rbrace is_opchar_not_rbrace)
      from first_rbrace [OF all this, of "[]" r] eq have e1: "n @ [c] = n' @ k' @ f'" by simp
      from k' obtain d k'' where k'': "k' = d # k''" "is_opchar d" by (cases k') auto
      from word_prefix [OF assms(2) n' assms(3) k''(2), of "[]" "k'' @ f'"] e1 k''(1)
      have "[c] = d # k'' @ f'" by simp
      with f' show False by simp
    qed
  qed
  then have "braced_rx None ?body = []" by simp
  with rx show ?thesis by (simp add: match_at_def)
qed

section \<open>Properties of the scan and of the replacement\<close>

lemma match_at_no_dollar: "c \<noteq> CHR ''$'' \<Longrightarrow> match_at (c # s) = None"
  by (cases "match_at (c # s)")
     (auto dest!: match_at_SomeD(1) simp: in_placeholder_rx is_dollar_def Cons_eq_append_conv)

lemma scan_literal: "CHR ''$'' \<notin> set pre \<Longrightarrow> scan (pre @ s) = map Lit pre @ scan s"
proof (induction pre)
  case Nil
  then show ?case by simp
next
  case (Cons c pre)
  then have "c \<noteq> CHR ''$''" by auto
  with Cons show ?case by (simp add: scan.simps match_at_no_dollar)
qed

lemma scan_match:
  assumes "match_at s = Some (m, r)"
  shows "scan s = Hit m # scan r"
proof (cases s)
  case Nil
  with match_at_shorter [OF assms] show ?thesis by simp
next
  case (Cons c cs)
  with assms show ?thesis by (simp add: scan.simps)
qed

lemma hits_scan_match:
  "m \<in> set (hits (scan s)) \<Longrightarrow> \<exists>s' r. match_at s' = Some (m, r)"
proof (induction s rule: scan.induct)
  case 1
  then show ?case by (simp add: scan.simps)
next
  case (2 c cs)
  show ?case
  proof (cases "match_at (c # cs)")
    case None
    with 2 show ?thesis by (simp add: scan.simps)
  next
    case (Some a)
    obtain m' r where a: "a = (m', r)" by (cases a)
    with Some 2 show ?thesis by (auto simp: scan.simps)
  qed
qed

lemma bind_return_left [simp]: "bind_traced (return_traced x) f = f x"
  by (simp add: bind_traced_def return_traced_def split: prod.splits)

lemma bind_return_right [simp]: "bind_traced m return_traced = m"
  by (simp add: bind_traced_def return_traced_def split: prod.splits sum.splits)

lemma bind_assoc:
  "bind_traced (bind_traced m f) g = bind_traced m (\<lambda>x. bind_traced (f x) g)"
  by (simp add: bind_traced_def split: prod.splits sum.splits)

lemma snd_bind_traced:
  "snd (bind_traced m f) = (case snd m of Inl e \<Rightarrow> Inl e | Inr x \<Rightarrow> snd (f x))"
  by (simp add: bind_traced_def split: prod.splits sum.splits)

lemma snd_return_traced [simp]: "snd (return_traced x) = Inr x"
  by (simp add: return_traced_def)

lemma replace_literal:
  "replace_pieces f (map Lit pre @ ps) =
     bind_traced (replace_pieces f ps) (\<lambda>u. return_traced (pre @ u))"
  by (induction pre) (simp_all add: bind_assoc)

lemma replace_only_literals: "replace_pieces f (map Lit s) = ([], Inr s)"
proof -
  from replace_literal [of f s "[]"] have "replace_pieces f (map Lit s) = return_traced s"
    by simp
  then show ?thesis by (simp add: return_traced_def)
qed

text \<open>
  A placeholder between literal text: the result is that of the replacer on the match,
  between the same text.
\<close>

lemma interpolateString_around:
  assumes "match_at (ph @ post) = Some (m, post)"
    and "CHR ''$'' \<notin> set pre" and "CHR ''$'' \<notin> set post"
  shows "interpolateString (pre @ ph @ post) env opts =
         bind_traced (replacer env opts m) (\<lambda>t. return_traced (pre @ t @ post))"
proof -
  from assms(3) have "scan post = map Lit post"
    using scan_literal [of post "[]"] by (simp add: scan.simps)
  with assms have "scan (pre @ ph @ post) = map Lit pre @ Hit m # map Lit post"
    by (simp add: scan_literal scan_match)
  then show ?thesis
    using replace_literal [of "replacer env opts" post "[]"]
    by (simp add: interpolateString_def replace_literal bind_assoc)
qed

lemma interpolateString_whole:
  assumes "match_at s = Some (m, [])"
  shows "interpolateString s env opts = replacer env opts m"
  using interpolateString_around [of s "[]" m "[]" env opts] assms
  by simp

lemma hits_append: "hits (ps @ qs) = hits ps @ hits qs"
  by (induction ps rule: hits.induct) simp_all

lemma replace_pieces_append:
  "replace_pieces f (ps @ qs) =
     bind_traced (replace_pieces f ps) (\<lambda>a.
     bind_traced (replace_pieces f qs) (\<lambda>b.
     return_traced (a @ b)))"
  by (induction f ps rule: replace_pieces.induct) (simp_all add: bind_assoc)

text \<open>
  An occurrence of a placeholder in a string: the scan of the string reaches the match
  \<open>m\<close> after the pieces \<open>before\<close> and goes on with the pieces \<open>after\<close>. The match is
  then one of the expression at the text it matched.
\<close>

lemma occurrence_match:
  assumes "scan s = before @ Hit m # after"
  shows "\<exists>r. match_at (matched m @ r) = Some (m, r)"
proof -
  from assms have "m \<in> set (hits (scan s))" by (simp add: hits_append)
  from hits_scan_match [OF this] obtain s' r where m: "match_at s' = Some (m, r)" by blast
  from match_at_matched [OF m] m show ?thesis by auto
qed

text \<open>
  The call on a string with an occurrence, when the pieces before it are replaced without
  an exception: the replacer runs on the match; its exception ends the call, and its
  result stands between the text made of the pieces before and the text made of the
  pieces after.
\<close>

lemma interpolateString_at:
  assumes "scan s = before @ Hit m # after"
    and "replace_pieces (replacer env opts) before = (log, Inr a)"
  shows "interpolateString s env opts =
     (case replacer env opts m of
        (l, Inl e) \<Rightarrow> (log @ l, Inl e)
      | (l, Inr t) \<Rightarrow>
          (log @ l @ fst (replace_pieces (replacer env opts) after),
           map_sum id (\<lambda>b. a @ t @ b) (snd (replace_pieces (replacer env opts) after))))"
  using assms
  by (simp add: interpolateString_def replace_pieces_append bind_traced_def return_traced_def
      split: prod.splits sum.splits)

text \<open>
  When the pieces before an occurrence are not replaced without an exception, the call
  ends with that exception and does not get to the occurrence.
\<close>

lemma interpolateString_stops:
  assumes "scan s = before @ Hit m # after"
    and "replace_pieces (replacer env opts) before = (log, Inl e)"
  shows "interpolateString s env opts = (log, Inl e)"
  using assms
  by (simp add: interpolateString_def replace_pieces_append bind_traced_def)

text \<open>
  When every match is replaced by its own text the input comes back; and a failing
  call fails at one of its matches, after the callback's calls for the matches up to
  it.
\<close>

lemma replace_identity:
  assumes "\<forall>m \<in> set (hits (scan s)). snd (f m) = Inr (matched m)"
  shows "snd (replace_pieces f (scan s)) = Inr s"
  using assms
proof (induction s rule: scan.induct)
  case 1
  then show ?case by (simp add: scan.simps)
next
  case (2 c cs)
  show ?case
  proof (cases "match_at (c # cs)")
    case None
    with 2 show ?thesis by (simp add: scan.simps snd_bind_traced)
  next
    case (Some a)
    obtain m r where a: "a = (m, r)" by (cases a)
    from Some a have sc: "scan (c # cs) = Hit m # scan r" by (simp add: scan.simps)
    with "2.prems" have fm: "snd (f m) = Inr (matched m)"
      and rest: "\<forall>m \<in> set (hits (scan r)). snd (f m) = Inr (matched m)"
      by simp_all
    from "2.IH"(2) [OF Some a [symmetric] rest] have "snd (replace_pieces f (scan r)) = Inr r" .
    with fm sc match_at_matched [OF Some [unfolded a]] show ?thesis
      by (simp add: snd_bind_traced)
  qed
qed

lemma replace_pieces_fails:
  assumes "replace_pieces f ps = (log, Inl e)"
  shows "\<exists>k. k < length (hits ps) \<and> snd (f (hits ps ! k)) = Inl e \<and>
           (\<forall>j<k. \<exists>t. snd (f (hits ps ! j)) = Inr t) \<and>
           log = concat (map (\<lambda>m. fst (f m)) (take (Suc k) (hits ps)))"
  using assms
proof (induction f ps arbitrary: log rule: replace_pieces.induct)
  case (1 f)
  then show ?case by (simp add: return_traced_def)
next
  case (2 f c ps)
  from "2.prems" have "replace_pieces f ps = (log, Inl e)"
    by (cases "replace_pieces f ps"; cases "snd (replace_pieces f ps)")
       (auto simp: bind_traced_def return_traced_def)
  from "2.IH" [OF this] show ?case by simp
next
  case (3 f m ps)
  obtain l1 r1 where fm: "f m = (l1, r1)" by (cases "f m")
  show ?case
  proof (cases r1)
    case (Inl e')
    with fm "3.prems" have "log = l1" "e' = e"
      by (auto simp: bind_traced_def)
    with fm Inl have "0 < length (hits (Hit m # ps)) \<and> snd (f (hits (Hit m # ps) ! 0)) = Inl e \<and>
        (\<forall>j<0. \<exists>t. snd (f (hits (Hit m # ps) ! j)) = Inr t) \<and>
        log = concat (map (\<lambda>m. fst (f m)) (take (Suc 0) (hits (Hit m # ps))))"
      by simp
    then show ?thesis by blast
  next
    case (Inr t)
    obtain l2 r2 where rest: "replace_pieces f ps = (l2, r2)" by (cases "replace_pieces f ps")
    with fm Inr "3.prems" have log: "log = l1 @ l2" and r2: "r2 = Inl e"
      by (cases r2; auto simp: bind_traced_def return_traced_def)+
    from "3.IH" [OF rest [unfolded r2]] fm Inr
    obtain k where k: "k < length (hits ps)" "snd (f (hits ps ! k)) = Inl e"
      "\<forall>j<k. \<exists>t. snd (f (hits ps ! j)) = Inr t"
      "l2 = concat (map (\<lambda>m. fst (f m)) (take (Suc k) (hits ps)))"
      by auto
    have "\<forall>j<Suc k. \<exists>t. snd (f (hits (Hit m # ps) ! j)) = Inr t"
    proof (intro allI impI)
      fix j assume "j < Suc k"
      with k(3) fm Inr show "\<exists>t. snd (f (hits (Hit m # ps) ! j)) = Inr t"
        by (cases j) auto
    qed
    with k log fm have "Suc k < length (hits (Hit m # ps)) \<and>
        snd (f (hits (Hit m # ps) ! Suc k)) = Inl e \<and>
        (\<forall>j<Suc k. \<exists>t. snd (f (hits (Hit m # ps) ! j)) = Inr t) \<and>
        log = concat (map (\<lambda>m. fst (f m)) (take (Suc (Suc k)) (hits (Hit m # ps))))"
      by simp
    then show ?thesis by blast
  qed
qed

lemma list_all2_concat_singletons:
  assumes "\<forall>m \<in> set ms. \<exists>ev. g m = [ev] \<and> P m ev"
  shows "list_all2 (\<lambda>m ev. g m = [ev] \<and> P m ev) ms (concat (map g ms))"
  using assms by (induction ms) auto

section \<open>Properties of the replacer\<close>

lemma is_nullish_rawValue [simp]:
  "is_nullish (rawValue env (Some n)) = is_nullish (env_get env n)"
  by (simp add: rawValue_def prop_key_def)

lemma truthy_value_emitted:
  assumes "own env n = Some v" and "truthy v"
  shows "resolved env (Some n) = toString v" and "\<not> is_nullish (rawValue env (Some n))"
  using assms by (cases v; simp add: resolved_def rawValue_def prop_key_def env_get_def)+


lemma undefined_value:
  assumes "is_nullish (env_get env n)"
  shows "rawValue env (Some n) = JUndefined"
  using assms by (simp add: rawValue_def prop_key_def)

lemma replacer_braced_operator:
  assumes "groups m = \<lparr>g_escaped = None, g_name1 = None, g_name2 = Some n,
                        g_kind = Some k, g_fallback = Some f\<rparr>"
  shows "replacer env opts m =
     ([\<lparr>placeholder = matched m, name = Some n, rawvalue = rawValue env (Some n),
        operator = Some \<lparr>kind = k, fallback = f\<rparr>, escaped = False\<rparr>],
      if is_nullish (env_get env n) \<and> preserveUndefined opts then Inr (matched m)
      else applyOperator \<lparr>kind = k, fallback = f\<rparr> (is_nullish (env_get env n))
             (resolved env (Some n) = []) (resolved env (Some n)))"
  using assms
  by (simp add: replacer_def Let_def name_of_def js_or_def mkOperator_def mkMatch_def)

lemma replacer_match:
  assumes "match_at s = Some (m, r)"
  obtains opr where "mkOperator m = Inr opr"
    and "replacer env opts m =
      ([mkMatch env m opr],
       if g_escaped (groups m) \<noteq> None then
         (if preserveEscaped opts then Inr (matched m) else Inr (drop 1 (matched m)))
       else if is_nullish (rawValue env (name_of (groups m))) \<and> preserveUndefined opts
         then Inr (matched m)
       else (case opr of
               None \<Rightarrow> Inr (resolved env (name_of (groups m)))
             | Some opr' \<Rightarrow>
                 applyOperator opr' (is_nullish (rawValue env (name_of (groups m))))
                   (resolved env (name_of (groups m)) = [])
                   (resolved env (name_of (groups m)))))"
proof -
  from match_groups(2) [OF assms] obtain opr where opr: "mkOperator m = Inr opr" by blast
  from match_groups(1) [OF assms]
  have "\<not> (g_name1 (groups m) = None \<and> g_name2 (groups m) = None)" by auto
  with opr have "replacer env opts m =
      ([mkMatch env m opr],
       if g_escaped (groups m) \<noteq> None then
         (if preserveEscaped opts then Inr (matched m) else Inr (drop 1 (matched m)))
       else if is_nullish (rawValue env (name_of (groups m))) \<and> preserveUndefined opts
         then Inr (matched m)
       else (case opr of
               None \<Rightarrow> Inr (resolved env (name_of (groups m)))
             | Some opr' \<Rightarrow>
                 applyOperator opr' (is_nullish (rawValue env (name_of (groups m))))
                   (resolved env (name_of (groups m)) = [])
                   (resolved env (name_of (groups m)))))"
    by (simp add: replacer_def Let_def)
  with opr show ?thesis by (rule that)
qed

lemma replacer_escaped:
  assumes "match_at s = Some (m, r)" and "g_escaped (groups m) \<noteq> None"
  shows "snd (replacer env opts m) =
         Inr (if preserveEscaped opts then matched m else drop 1 (matched m))"
  by (rule replacer_match [OF assms(1), of env opts]) (simp add: assms(2))

lemma replacer_preserved:
  assumes "match_at s = Some (m, r)" and "g_escaped (groups m) = None"
    and "is_nullish (rawValue env (name_of (groups m)))" and "preserveUndefined opts"
  shows "snd (replacer env opts m) = Inr (matched m)"
  by (rule replacer_match [OF assms(1), of env opts]) (simp add: assms(2-4))

lemma replacer_calls_once:
  assumes "match_at s = Some (m, r)"
  shows "\<exists>ev. fst (replacer env opts m) = [ev] \<and> placeholder ev = matched m \<and>
           name ev = name_of (groups m) \<and> escaped ev = (g_escaped (groups m) \<noteq> None)"
  by (rule replacer_match [OF assms(1), of env opts]) (simp add: mkMatch_def)

lemma replacer_unescaped:
  assumes "g_escaped (groups m) = None"
  shows "replacer env (opts\<lparr>preserveEscaped := b\<rparr>) m = replacer env opts m"
  using assms by (cases "mkOperator m") (simp_all add: replacer_def Let_def)

lemma replacer_error_kinds:
  assumes "match_at s = Some (m, r)" and "snd (replacer env opts m) = Inl e"
  shows "(\<exists>msg. e = ValueError msg) \<or>
         (\<exists>k. e = mkSyntaxError (''unknown operator: '' @ quoted k))"
proof (rule replacer_match [OF assms(1), of env opts])
  fix opr
  assume "mkOperator m = Inr opr" and
    "replacer env opts m =
      ([mkMatch env m opr],
       if g_escaped (groups m) \<noteq> None then
         (if preserveEscaped opts then Inr (matched m) else Inr (drop 1 (matched m)))
       else if is_nullish (rawValue env (name_of (groups m))) \<and> preserveUndefined opts
         then Inr (matched m)
       else (case opr of
               None \<Rightarrow> Inr (resolved env (name_of (groups m)))
             | Some opr' \<Rightarrow>
                 applyOperator opr' (is_nullish (rawValue env (name_of (groups m))))
                   (resolved env (name_of (groups m)) = [])
                   (resolved env (name_of (groups m)))))"
  with assms(2) show ?thesis
    by (auto simp: applyOperator_def split: if_splits option.splits)
qed

section \<open>Whole calls\<close>

text \<open>
  An occurrence of a braced placeholder with an operator, reached by the call: the
  callback receives its record; then the occurrence is kept, replaced, or the call
  fails, as lines 213-248 say.
\<close>

lemma interpolateString_at_operator:
  assumes "scan s = before @ Hit m # after"
    and "groups m = \<lparr>g_escaped = None, g_name1 = None, g_name2 = Some n,
                      g_kind = Some k, g_fallback = Some f\<rparr>"
    and "replace_pieces (replacer env opts) before = (log, Inr a)"
  shows "interpolateString s env opts =
     (case (if is_nullish (env_get env n) \<and> preserveUndefined opts then Inr (matched m)
            else applyOperator \<lparr>kind = k, fallback = f\<rparr> (is_nullish (env_get env n))
                   (resolved env (Some n) = []) (resolved env (Some n))) of
        Inl e \<Rightarrow>
          (log @ [\<lparr>placeholder = matched m, name = Some n, rawvalue = rawValue env (Some n),
                   operator = Some \<lparr>kind = k, fallback = f\<rparr>, escaped = False\<rparr>], Inl e)
      | Inr t \<Rightarrow>
          (log @ \<lparr>placeholder = matched m, name = Some n, rawvalue = rawValue env (Some n),
                   operator = Some \<lparr>kind = k, fallback = f\<rparr>, escaped = False\<rparr> #
             fst (replace_pieces (replacer env opts) after),
           map_sum id (\<lambda>b. a @ t @ b) (snd (replace_pieces (replacer env opts) after))))"
  unfolding interpolateString_at [OF assms(1,3)] replacer_braced_operator [OF assms(2)]
  by (simp split: sum.splits)

text \<open>
  The \<open>SyntaxError\<close> for a missing fallback is never thrown; a brace form with a lone
  operator character is returned as it is.
\<close>

lemma fallback_check_unreachable:
  "snd (interpolateString s env opts) \<noteq>
     Inl (mkSyntaxError (''fallback not specified: '' @ x))"
proof
  assume a: "snd (interpolateString s env opts) =
               Inl (mkSyntaxError (''fallback not specified: '' @ x))"
  let ?e = "mkSyntaxError (''fallback not specified: '' @ x)"
  from a have "replace_pieces (replacer env opts) (scan s) =
               (fst (interpolateString s env opts), Inl ?e)"
    by (simp add: interpolateString_def prod_eq_iff)
  from replace_pieces_fails [OF this]
  obtain k where k: "k < length (hits (scan s))"
    and e: "snd (replacer env opts (hits (scan s) ! k)) = Inl ?e"
    by blast
  from k have "hits (scan s) ! k \<in> set (hits (scan s))" by simp
  from hits_scan_match [OF this] obtain s' r
    where "match_at s' = Some (hits (scan s) ! k, r)" by blast
  from replacer_error_kinds [OF this e] show False
    by (auto simp: mkSyntaxError_def)
qed

lemma lone_operator_is_literal:
  assumes "n \<noteq> []" and "list_all is_word n" and "is_opchar c"
  shows "interpolateString (''${'' @ n @ [c] @ ''}'') env opts =
         ([], Inr (''${'' @ n @ [c] @ ''}''))"
proof -
  have "CHR ''$'' \<notin> set (CHR ''{'' # n @ [c] @ ''}'')"
    using assms(2,3) by (auto simp: list_all_iff is_opchar_def)
  from scan_literal [OF this, of "[]"]
  have "scan (CHR ''{'' # n @ [c] @ ''}'') = map Lit (CHR ''{'' # n @ [c] @ ''}'')"
    by (simp add: scan.simps)
  with lone_operator_no_match [OF assms]
  have "scan (''${'' @ n @ [c] @ ''}'') = map Lit (''${'' @ n @ [c] @ ''}'')"
    by (simp add: scan.simps)
  then show ?thesis
    by (simp only: interpolateString_def replace_only_literals)
qed

lemma interpolateString_noop:
  assumes "\<forall>n \<in> set (names_of_string s). is_nullish (env_get env n)"
    and "preserveEscaped opts" and "preserveUndefined opts"
  shows "snd (interpolateString s env opts) = Inr s"
  unfolding interpolateString_def
proof (rule replace_identity, rule ballI)
  fix m assume m: "m \<in> set (hits (scan s))"
  from hits_scan_match [OF m] obtain s' r where ma: "match_at s' = Some (m, r)" by blast
  from m assms(1) have undef: "is_nullish (rawValue env (name_of (groups m)))"
    by (auto simp: names_of_string_def rawValue_def)
  show "snd (replacer env opts m) = Inr (matched m)"
  proof (cases "g_escaped (groups m) = None")
    case True
    from replacer_preserved [OF ma True undef assms(3)] show ?thesis .
  next
    case False
    from replacer_escaped [OF ma False, of env opts] assms(2) show ?thesis by simp
  qed
qed

text \<open>
  \<open>isObject\<close> by cases, and the values that come back as they were given under the two
  \<open>preserve\<close> options: those whose objects are object literals with no key
  \<open>toString\<close>, when every name their placeholders refer to reads as undefined.
\<close>

lemma isObject_cases:
  "isObject p kvs =
     (case map_of kvs ''toString'' of
        Some (VFun t) \<Rightarrow> Inr (t = ''[object Object]'')
      | Some _ \<Rightarrow> Inl TypeError
      | None \<Rightarrow>
          (case p of
             PlainProto \<Rightarrow> Inr True
           | NullProto \<Rightarrow> Inl TypeError
           | OtherProto t \<Rightarrow> Inr (t = ''[object Object]'')))"
  by (simp add: isObject_def toString_call_def split: option.splits jvalue.splits proto.splits)

lemma interpolate0_noop:
  fixes v :: "'a jvalue" and xs :: "'a jvalue list" and kvs :: "(string \<times> 'a jvalue) list"
  shows "preserveEscaped opts \<Longrightarrow> preserveUndefined opts \<Longrightarrow> plain_tree v \<Longrightarrow>
           (\<forall>n \<in> set (referenced v). is_nullish (env_get env n)) \<Longrightarrow>
           snd (interpolate0 v env opts) = Inr v"
    and "preserveEscaped opts \<Longrightarrow> preserveUndefined opts \<Longrightarrow> plain_list xs \<Longrightarrow>
           (\<forall>n \<in> set (referenced_list xs). is_nullish (env_get env n)) \<Longrightarrow>
           snd (interpolate0_map xs env opts) = Inr xs"
    and "preserveEscaped opts \<Longrightarrow> preserveUndefined opts \<Longrightarrow> plain_entries kvs \<Longrightarrow>
           (\<forall>n \<in> set (referenced_entries kvs). is_nullish (env_get env n)) \<Longrightarrow>
           snd (interpolate0_entries kvs env opts) = Inr kvs"
proof (induction v env opts and xs env opts and kvs env opts
    rule: interpolate0_interpolate0_map_interpolate0_entries.induct)
  case (1 s env opts)
  then have "\<forall>n \<in> set (names_of_string s). is_nullish (env_get env n)" by simp
  from interpolateString_noop [OF this "1.prems"(1,2)]
  show ?case by (simp add: snd_bind_traced)
next
  case (3 p kvs env opts)
  from "3.prems" have t: "isObject p kvs = Inr True"
    by (simp add: isObject_cases)
  from "3.prems" have "snd (interpolate0_entries kvs env opts) = Inr kvs"
    by (intro "3.IH" [OF t]) simp_all
  with t "3.prems" show ?case by (simp add: snd_bind_traced)
qed (simp_all add: snd_bind_traced)

lemma interpolate0_map_shape:
  "snd (interpolate0_map xs env opts) = Inr ys \<Longrightarrow>
     list_all2 (\<lambda>x y. snd (interpolate0 x env opts) = Inr y) xs ys"
proof (induction xs arbitrary: ys)
  case Nil
  then show ?case by simp
next
  case (Cons x xs)
  from Cons.prems obtain y ys' where "snd (interpolate0 x env opts) = Inr y"
    and "snd (interpolate0_map xs env opts) = Inr ys'" and "ys = y # ys'"
    by (auto simp: snd_bind_traced split: sum.splits)
  with Cons.IH show ?case by simp
qed

lemma interpolate0_entries_shape:
  "snd (interpolate0_entries kvs env opts) = Inr kvs' \<Longrightarrow>
     list_all2 (\<lambda>kv kv'. fst kv' = fst kv \<and> snd (interpolate0 (snd kv) env opts) = Inr (snd kv'))
       kvs kvs'"
proof (induction kvs arbitrary: kvs')
  case Nil
  then show ?case by simp
next
  case (Cons kv kvs)
  obtain k v where kv: "kv = (k, v)" by (cases kv)
  from Cons.prems kv obtain v' rest where "snd (interpolate0 v env opts) = Inr v'"
    and "snd (interpolate0_entries kvs env opts) = Inr rest" and "kvs' = (k, v') # rest"
    by (auto simp: snd_bind_traced split: sum.splits)
  with Cons.IH kv show ?case by simp
qed

section \<open>The cases of the test suite\<close>

text \<open>Unfolding sets for evaluating the model on a concrete input.\<close>

lemmas rx_eval = match_at_def placeholder_rx_def after_dollar_def name_rx_def braced_rx_def
  operator_rx_def rx_seq_def rx_alt_def rx_ret_def rx_opt_def rx_chr_def
  is_dollar_def is_word_def is_opchar_def not_rbrace_def

lemmas replacer_eval = replacer_def Let_def name_of_def js_or_def resolved_def rawValue_def
  mkOperator_def mkMatch_def applyOperator_def prop_key_def env_get_def mkSyntaxError_def
  quoted_def plain_object_def bare_object_def object_prototype_def native_function_def

lemmas run_eval = interpolateString_def scan.simps bind_traced_def return_traced_def

text \<open>The model gives what the tests of the repository expect; a sample of each of their
  groups.\<close>

lemmas test_eval = run_test_def test_env_def mergeOptions_def run_eval rx_eval replacer_eval
  digits.simps digit_char_def

lemma tests_trivial:
  "run_test ''$VAR'' = Inr ''value''"
  "run_test ''${VAR}'' = Inr ''value''"
  "run_test ''$EMPTY'' = Inr ''''"
  "run_test ''${UNDEFINED}'' = Inr ''''"
  "run_test ''some$VAR$VAR'' = Inr ''somevaluevalue''"
  "run_test ''${$VAR}'' = Inr ''${value}''"
  "run_test ''$${$VAR}'' = Inr ''$${value}''"
  "run_test ''$NULL'' = Inr ''''"
  "run_test ''$NUMBER'' = Inr ''5''"
  by (simp_all add: test_eval)

lemma tests_not_placeholders:
  "run_test ''$'' = Inr ''$''"
  "run_test ''$$'' = Inr ''$$''"
  "run_test ''somevalue$$'' = Inr ''somevalue$$''"
  "run_test ''some${value'' = Inr ''some${value''"
  "run_test ''some$${value'' = Inr ''some$${value''"
  by (simp_all add: test_eval)

lemma tests_escaped:
  "run_test ''$$VAR'' = Inr ''$VAR''"
  "run_test ''$$$VAR'' = Inr ''$$VAR''"
  "run_test ''$$$$VAR'' = Inr ''$$$VAR''"
  "run_test ''$${VAR}'' = Inr ''${VAR}''"
  "run_test ''$$$${VAR}'' = Inr ''$$${VAR}''"
  by (simp_all add: test_eval)

lemma tests_no_braces:
  "run_test ''$VAR:-notadefault'' = Inr ''value:-notadefault''"
  "run_test ''$VAR?notanerror 1_^C#$-r'' = Inr ''value?notanerror 1_^C#$-r''"
  "run_test ''$UNSET:?notanerror'' = Inr '':?notanerror''"
  by (simp_all add: test_eval)

lemma tests_operators:
  "run_test ''${VAR-default 1_^C#$-r}'' = Inr ''value''"
  "run_test ''${EMPTY-default}'' = Inr ''''"
  "run_test ''${UNSET-default 1_^C#$-r}'' = Inr ''default 1_^C#$-r''"
  "run_test ''${EMPTY:-default 1_^C#$-r}'' = Inr ''default 1_^C#$-r''"
  "run_test ''${UNSET:-default}'' = Inr ''default''"
  "run_test ''${EMPTY?error}'' = Inr ''''"
  "run_test ''${UNSET?error 1_^C#$-r}'' = Inl (ValueError ''error 1_^C#$-r'')"
  "run_test ''${EMPTY:?error}'' = Inl (ValueError ''error'')"
  "run_test ''${UNSET:?error}'' = Inl (ValueError ''error'')"
  by (simp_all add: test_eval)

lemma tests_complex:
  "run_test ''pre$$fix${VAR:-default} in$$fix${VAR:-default} suf$$fix'' =
     Inr ''pre$fixvalue in$fixvalue suf$fix''"
  by (simp add: test_eval)

lemma tests_options:
  "snd (interpolateString ''$$VAR'' test_env
      (mergeOptions (Some \<lparr>opt_preserveEscaped = Some True, opt_preserveUndefined = None\<rparr>))) =
     Inr ''$$VAR''"
  "snd (interpolateString ''$NOT_A_VAR'' test_env
      (mergeOptions (Some \<lparr>opt_preserveEscaped = None, opt_preserveUndefined = Some True\<rparr>))) =
     Inr ''$NOT_A_VAR''"
  by (simp_all add: test_eval)

text \<open>Names that an object literal inherits are defined, unless an own entry hides
  them; an object without a prototype has none.\<close>

lemma inherited_names_are_defined:
  "snd (interpolateString ''$constructor'' (plain_object Map.empty) (mergeOptions None)) =
     Inr ''function Object() { [native code] }''"
  "snd (interpolateString ''${valueOf?e}'' (plain_object Map.empty)
      \<lparr>preserveEscaped = False, preserveUndefined = True\<rparr>) =
     Inr ''function valueOf() { [native code] }''"
  "snd (interpolateString ''${valueOf?e}'' (bare_object Map.empty)
      \<lparr>preserveEscaped = False, preserveUndefined = True\<rparr>) = Inr ''${valueOf?e}''"
  "snd (interpolateString ''${toString:-d}'' (plain_object [''toString'' \<mapsto> JUndefined])
      (mergeOptions None)) = Inr ''d''"
  "snd (interpolateString ''$__proto__'' (plain_object Map.empty) (mergeOptions None)) =
     Inr ''[object Object]''"
  by (simp_all add: mergeOptions_def run_eval rx_eval replacer_eval)

text \<open>Operator characters and nothing after them: in \<open>${NAME:?}\<close> the last one is taken
  for the fallback, and the kind \<open>:\<close> that is left is not one of the four.\<close>

lemma operator_characters_only:
  "run_test ''${NAME:?}'' = Inl (mkSyntaxError (''unknown operator: '' @ quoted '':''))"
  by (simp add: test_eval)

section \<open>The claims\<close>

subsection \<open>C1: an operator with no fallback text\<close>

text \<open>
  C1 says that a braced placeholder with an operator token and no fallback text before the
  closing brace makes \<open>interpolateString\<close> fail with a \<open>SyntaxError\<close>. The source has the
  check (lines 191-194), but the expression only captures a kind together with a non-empty
  fallback (\<open>([^}]+)\<close>), so the check never fires: on \<open>${NAME-}\<close> the expression does not
  match at all, the callback is not called, and the input is returned as it is; and on no
  input does the call fail with the error of that check.
\<close>

theorem C1_missing_fallback_is_literal:
  "interpolateString ''${NAME-}'' env opts = ([], Inr ''${NAME-}'') \<and>
   (\<forall>s x. snd (interpolateString s env opts) \<noteq>
      Inl (mkSyntaxError (''fallback not specified: '' @ x)))"
proof
  have "''NAME'' \<noteq> []" and "list_all is_word ''NAME''" and "is_opchar CHR ''-''"
    by (simp_all add: is_word_def is_opchar_def)
  from lone_operator_is_literal [OF this, of env opts]
  show "interpolateString ''${NAME-}'' env opts = ([], Inr ''${NAME-}'')" by simp
next
  show "\<forall>s x. snd (interpolateString s env opts) \<noteq>
      Inl (mkSyntaxError (''fallback not specified: '' @ x))"
    by (intro allI fallback_check_unreachable)
qed

subsection \<open>C2: where the operator token ends\<close>

text \<open>
  C2 says that the operator is the first of \<open>-\<close>, \<open>?\<close>, \<open>:-\<close>, \<open>:?\<close> after the name and
  that the fallback may itself begin with \<open>-\<close>, \<open>:\<close> or \<open>?\<close>, so that \<open>${VAR-:x}\<close> with
  \<open>VAR\<close> defined emits the value. In the source the kind is the run \<open>[:\-\?]+\<close>, as
  long as the expression can make it: the kind of \<open>${VAR-:x}\<close> is \<open>-:\<close>, which the
  \<open>switch\<close> rejects.
\<close>

theorem C2_counterexample:
  "snd (interpolateString ''${VAR-:x}'' (plain_object [''VAR'' \<mapsto> JStr ''value''])
          \<lparr>preserveEscaped = False, preserveUndefined = False\<rparr>) =
     Inl (mkSyntaxError (''unknown operator: '' @ quoted ''-:'')) \<and>
   snd (interpolateString ''${VAR-:x}'' (plain_object [''VAR'' \<mapsto> JStr ''value''])
          \<lparr>preserveEscaped = False, preserveUndefined = False\<rparr>) \<noteq> Inr ''value''"
  by (simp add: run_eval rx_eval replacer_eval)

text \<open>
  C2 as amended, for an occurrence of a braced placeholder anywhere in a string \<open>s\<close>:
  the scan of \<open>s\<close> gives the pieces \<open>before\<close>, the match \<open>m\<close> and the pieces
  \<open>after\<close>. The text between the name and the closing brace begins with an operator
  character: it is the run of operator characters at its start (\<open>run\<close>) and what
  follows the run (\<open>rest\<close>, which has no \<open>}\<close> and does not begin with an operator
  character). The kind is the longest part of the run that leaves a fallback: the whole
  run when text follows it, and the run without its last character when nothing does,
  that character being the fallback then (\<open>${UNSET-?}\<close> has kind \<open>-\<close> and fallback
  \<open>?\<close>; a single operator character with nothing after it is no placeholder at all,
  see \<open>lone_operator_is_literal\<close>). The fallback is the rest of the text.

  When the call gets to the occurrence (the pieces before it are replaced without an
  exception, giving the text \<open>a\<close> after the callback has received the records
  \<open>log\<close>), the callback is told this kind and this fallback, and the occurrence is
  replaced as the rule of the kind says when the kind is one of the four, while every
  other kind fails with the unknown-operator \<open>SyntaxError\<close>; an undefined name under
  \<open>preserveUndefined\<close> is kept as it is, whatever the kind. A name is undefined when
  \<open>env[name]\<close> is \<open>null\<close> or \<open>undefined\<close> (line 186). The rules are written out
  for an undefined name, for a string entry \<open>v\<close>, and for any other defined value
  \<open>w\<close>, whose text is \<open>(w || '').toString()\<close>. Where the occurrence is replaced by
  a text \<open>t\<close>, the call goes on with the pieces after it: it fails if one of them
  fails, and returns \<open>a\<close>, \<open>t\<close> and their text otherwise.
\<close>

theorem C2_operator_token:
  assumes "scan s = before @ Hit m # after"
    and "matched m = ''${'' @ n @ run @ rest @ ''}''"
    and "n \<noteq> []" and "list_all is_word n"
    and "run \<noteq> []" and "list_all is_opchar run"
    and "list_all not_rbrace rest" and "rest = [] \<or> \<not> is_opchar (hd rest)"
    and "rest \<noteq> [] \<or> 2 \<le> length run"
  shows
    "let K = (if rest = [] then butlast run else run);
         F = (if rest = [] then [last run] else rest);
         call = (\<lambda>w. \<lparr>placeholder = matched m, name = Some n, rawvalue = w,
                       operator = Some \<lparr>kind = K, fallback = F\<rparr>, escaped = False\<rparr>);
         emit = (\<lambda>log a w t.
                   (log @ call w # fst (replace_pieces (replacer env opts) after),
                    map_sum id (\<lambda>b. a @ t @ b)
                      (snd (replace_pieces (replacer env opts) after))));
         fail = (\<lambda>log w e. (log @ [call w], Inl e));
         unknown = mkSyntaxError (''unknown operator: '' @ quoted K)
     in groups m = \<lparr>g_escaped = None, g_name1 = None, g_name2 = Some n,
                     g_kind = Some K, g_fallback = Some F\<rparr> \<and>
        (\<forall>log a. replace_pieces (replacer env opts) before = (log, Inr a) \<longrightarrow>
           (is_nullish (env_get env n) \<longrightarrow>
              interpolateString s env opts =
                (if preserveUndefined opts then emit log a JUndefined (matched m)
                 else if K = ''-'' \<or> K = '':-'' then emit log a JUndefined F
                 else if K = ''?'' \<or> K = '':?'' then fail log JUndefined (ValueError F)
                 else fail log JUndefined unknown)) \<and>
           (\<forall>v. env_get env n = JStr v \<longrightarrow>
              interpolateString s env opts =
                (if K = ''-'' \<or> K = ''?'' then emit log a (JStr v) v
                 else if K = '':-'' then emit log a (JStr v) (if v = [] then F else v)
                 else if K = '':?'' then
                   (if v = [] then fail log (JStr v) (ValueError F) else emit log a (JStr v) v)
                 else fail log (JStr v) unknown)) \<and>
           (\<not> is_nullish (env_get env n) \<longrightarrow>
              (let w = env_get env n; text = (if truthy w then toString w else [])
               in interpolateString s env opts =
                    (if K = ''-'' \<or> K = ''?'' then emit log a w text
                     else if K = '':-'' then emit log a w (if text = [] then F else text)
                     else if K = '':?'' then
                       (if text = [] then fail log w (ValueError F) else emit log a w text)
                     else fail log w unknown))))"
proof -
  define K where "K = (if rest = [] then butlast run else run)"
  define F where "F = (if rest = [] then [last run] else rest)"
  from occurrence_match [OF assms(1)] obtain r where "match_at (matched m @ r) = Some (m, r)"
    by blast
  with match_at_operator_body [OF assms(3-9), of r] assms(2)
  have g: "groups m = \<lparr>g_escaped = None, g_name1 = None, g_name2 = Some n,
                        g_kind = Some K, g_fallback = Some F\<rparr>"
    by (auto simp: K_def F_def)
  have "(is_nullish (env_get env n) \<longrightarrow>
           interpolateString s env opts =
             (if preserveUndefined opts then
                (log @ \<lparr>placeholder = matched m, name = Some n, rawvalue = JUndefined,
                        operator = Some \<lparr>kind = K, fallback = F\<rparr>, escaped = False\<rparr> #
                   fst (replace_pieces (replacer env opts) after),
                 map_sum id (\<lambda>b. a @ matched m @ b) (snd (replace_pieces (replacer env opts) after)))
              else if K = ''-'' \<or> K = '':-'' then
                (log @ \<lparr>placeholder = matched m, name = Some n, rawvalue = JUndefined,
                        operator = Some \<lparr>kind = K, fallback = F\<rparr>, escaped = False\<rparr> #
                   fst (replace_pieces (replacer env opts) after),
                 map_sum id (\<lambda>b. a @ F @ b) (snd (replace_pieces (replacer env opts) after)))
              else if K = ''?'' \<or> K = '':?'' then
                (log @ [\<lparr>placeholder = matched m, name = Some n, rawvalue = JUndefined,
                         operator = Some \<lparr>kind = K, fallback = F\<rparr>, escaped = False\<rparr>],
                 Inl (ValueError F))
              else
                (log @ [\<lparr>placeholder = matched m, name = Some n, rawvalue = JUndefined,
                         operator = Some \<lparr>kind = K, fallback = F\<rparr>, escaped = False\<rparr>],
                 Inl (mkSyntaxError (''unknown operator: '' @ quoted K))))) \<and>
        (\<forall>v. env_get env n = JStr v \<longrightarrow>
           interpolateString s env opts =
             (if K = ''-'' \<or> K = ''?'' then
                (log @ \<lparr>placeholder = matched m, name = Some n, rawvalue = JStr v,
                        operator = Some \<lparr>kind = K, fallback = F\<rparr>, escaped = False\<rparr> #
                   fst (replace_pieces (replacer env opts) after),
                 map_sum id (\<lambda>b. a @ v @ b) (snd (replace_pieces (replacer env opts) after)))
              else if K = '':-'' then
                (log @ \<lparr>placeholder = matched m, name = Some n, rawvalue = JStr v,
                        operator = Some \<lparr>kind = K, fallback = F\<rparr>, escaped = False\<rparr> #
                   fst (replace_pieces (replacer env opts) after),
                 map_sum id (\<lambda>b. a @ (if v = [] then F else v) @ b)
                   (snd (replace_pieces (replacer env opts) after)))
              else if K = '':?'' then
                (if v = [] then
                   (log @ [\<lparr>placeholder = matched m, name = Some n, rawvalue = JStr v,
                            operator = Some \<lparr>kind = K, fallback = F\<rparr>, escaped = False\<rparr>],
                    Inl (ValueError F))
                 else
                   (log @ \<lparr>placeholder = matched m, name = Some n, rawvalue = JStr v,
                           operator = Some \<lparr>kind = K, fallback = F\<rparr>, escaped = False\<rparr> #
                      fst (replace_pieces (replacer env opts) after),
                    map_sum id (\<lambda>b. a @ v @ b) (snd (replace_pieces (replacer env opts) after))))
              else
                (log @ [\<lparr>placeholder = matched m, name = Some n, rawvalue = JStr v,
                         operator = Some \<lparr>kind = K, fallback = F\<rparr>, escaped = False\<rparr>],
                 Inl (mkSyntaxError (''unknown operator: '' @ quoted K))))) \<and>
        (\<not> is_nullish (env_get env n) \<longrightarrow>
           interpolateString s env opts =
             (if K = ''-'' \<or> K = ''?'' then
                (log @ \<lparr>placeholder = matched m, name = Some n, rawvalue = env_get env n,
                        operator = Some \<lparr>kind = K, fallback = F\<rparr>, escaped = False\<rparr> #
                   fst (replace_pieces (replacer env opts) after),
                 map_sum id (\<lambda>b. a @ (if truthy (env_get env n) then toString (env_get env n) else []) @ b)
                   (snd (replace_pieces (replacer env opts) after)))
              else if K = '':-'' then
                (log @ \<lparr>placeholder = matched m, name = Some n, rawvalue = env_get env n,
                        operator = Some \<lparr>kind = K, fallback = F\<rparr>, escaped = False\<rparr> #
                   fst (replace_pieces (replacer env opts) after),
                 map_sum id (\<lambda>b. a @ (if (if truthy (env_get env n) then toString (env_get env n) else []) = []
                                        then F
                                        else (if truthy (env_get env n) then toString (env_get env n) else [])) @ b)
                   (snd (replace_pieces (replacer env opts) after)))
              else if K = '':?'' then
                (if (if truthy (env_get env n) then toString (env_get env n) else []) = [] then
                   (log @ [\<lparr>placeholder = matched m, name = Some n, rawvalue = env_get env n,
                            operator = Some \<lparr>kind = K, fallback = F\<rparr>, escaped = False\<rparr>],
                    Inl (ValueError F))
                 else
                   (log @ \<lparr>placeholder = matched m, name = Some n, rawvalue = env_get env n,
                           operator = Some \<lparr>kind = K, fallback = F\<rparr>, escaped = False\<rparr> #
                      fst (replace_pieces (replacer env opts) after),
                    map_sum id (\<lambda>b. a @ (if truthy (env_get env n) then toString (env_get env n) else []) @ b)
                      (snd (replace_pieces (replacer env opts) after))))
              else
                (log @ [\<lparr>placeholder = matched m, name = Some n, rawvalue = env_get env n,
                         operator = Some \<lparr>kind = K, fallback = F\<rparr>, escaped = False\<rparr>],
                 Inl (mkSyntaxError (''unknown operator: '' @ quoted K)))))"
    if before: "replace_pieces (replacer env opts) before = (log, Inr a)" for log a
  proof -
  note at = interpolateString_at_operator [OF assms(1) g before]
  have undef: "is_nullish (env_get env n) \<Longrightarrow> rawValue env (Some n) = JUndefined"
    by (rule undefined_value)
  have def: "\<not> is_nullish (env_get env n) \<Longrightarrow>
      rawValue env (Some n) = env_get env n \<and>
      resolved env (Some n) = (if truthy (env_get env n) then toString (env_get env n) else [])"
    by (simp add: resolved_def rawValue_def prop_key_def)
  have c1: "is_nullish (env_get env n) \<Longrightarrow>
      interpolateString s env opts =
        (if preserveUndefined opts then
           (log @ \<lparr>placeholder = matched m, name = Some n, rawvalue = JUndefined,
                   operator = Some \<lparr>kind = K, fallback = F\<rparr>, escaped = False\<rparr> #
              fst (replace_pieces (replacer env opts) after),
            map_sum id (\<lambda>b. a @ matched m @ b) (snd (replace_pieces (replacer env opts) after)))
         else if K = ''-'' \<or> K = '':-'' then
           (log @ \<lparr>placeholder = matched m, name = Some n, rawvalue = JUndefined,
                   operator = Some \<lparr>kind = K, fallback = F\<rparr>, escaped = False\<rparr> #
              fst (replace_pieces (replacer env opts) after),
            map_sum id (\<lambda>b. a @ F @ b) (snd (replace_pieces (replacer env opts) after)))
         else if K = ''?'' \<or> K = '':?'' then
           (log @ [\<lparr>placeholder = matched m, name = Some n, rawvalue = JUndefined,
                    operator = Some \<lparr>kind = K, fallback = F\<rparr>, escaped = False\<rparr>],
            Inl (ValueError F))
         else
           (log @ [\<lparr>placeholder = matched m, name = Some n, rawvalue = JUndefined,
                    operator = Some \<lparr>kind = K, fallback = F\<rparr>, escaped = False\<rparr>],
            Inl (mkSyntaxError (''unknown operator: '' @ quoted K))))"
    unfolding at by (auto simp: applyOperator_def undef)
  have c3: "\<not> is_nullish (env_get env n) \<Longrightarrow>
      interpolateString s env opts =
        (if K = ''-'' \<or> K = ''?'' then
           (log @ \<lparr>placeholder = matched m, name = Some n, rawvalue = env_get env n,
                   operator = Some \<lparr>kind = K, fallback = F\<rparr>, escaped = False\<rparr> #
              fst (replace_pieces (replacer env opts) after),
            map_sum id (\<lambda>b. a @ (if truthy (env_get env n) then toString (env_get env n) else []) @ b)
              (snd (replace_pieces (replacer env opts) after)))
         else if K = '':-'' then
           (log @ \<lparr>placeholder = matched m, name = Some n, rawvalue = env_get env n,
                   operator = Some \<lparr>kind = K, fallback = F\<rparr>, escaped = False\<rparr> #
              fst (replace_pieces (replacer env opts) after),
            map_sum id (\<lambda>b. a @ (if (if truthy (env_get env n) then toString (env_get env n) else []) = []
                                   then F
                                   else (if truthy (env_get env n) then toString (env_get env n) else [])) @ b)
              (snd (replace_pieces (replacer env opts) after)))
         else if K = '':?'' then
           (if (if truthy (env_get env n) then toString (env_get env n) else []) = [] then
              (log @ [\<lparr>placeholder = matched m, name = Some n, rawvalue = env_get env n,
                       operator = Some \<lparr>kind = K, fallback = F\<rparr>, escaped = False\<rparr>],
               Inl (ValueError F))
            else
              (log @ \<lparr>placeholder = matched m, name = Some n, rawvalue = env_get env n,
                      operator = Some \<lparr>kind = K, fallback = F\<rparr>, escaped = False\<rparr> #
                 fst (replace_pieces (replacer env opts) after),
               map_sum id (\<lambda>b. a @ (if truthy (env_get env n) then toString (env_get env n) else []) @ b)
                 (snd (replace_pieces (replacer env opts) after))))
         else
           (log @ [\<lparr>placeholder = matched m, name = Some n, rawvalue = env_get env n,
                    operator = Some \<lparr>kind = K, fallback = F\<rparr>, escaped = False\<rparr>],
            Inl (mkSyntaxError (''unknown operator: '' @ quoted K))))"
    unfolding at by (auto simp: applyOperator_def def)
  have c2: "env_get env n = JStr v \<Longrightarrow>
      interpolateString s env opts =
        (if K = ''-'' \<or> K = ''?'' then
           (log @ \<lparr>placeholder = matched m, name = Some n, rawvalue = JStr v,
                   operator = Some \<lparr>kind = K, fallback = F\<rparr>, escaped = False\<rparr> #
              fst (replace_pieces (replacer env opts) after),
            map_sum id (\<lambda>b. a @ v @ b) (snd (replace_pieces (replacer env opts) after)))
         else if K = '':-'' then
           (log @ \<lparr>placeholder = matched m, name = Some n, rawvalue = JStr v,
                   operator = Some \<lparr>kind = K, fallback = F\<rparr>, escaped = False\<rparr> #
              fst (replace_pieces (replacer env opts) after),
            map_sum id (\<lambda>b. a @ (if v = [] then F else v) @ b)
              (snd (replace_pieces (replacer env opts) after)))
         else if K = '':?'' then
           (if v = [] then
              (log @ [\<lparr>placeholder = matched m, name = Some n, rawvalue = JStr v,
                       operator = Some \<lparr>kind = K, fallback = F\<rparr>, escaped = False\<rparr>],
               Inl (ValueError F))
            else
              (log @ \<lparr>placeholder = matched m, name = Some n, rawvalue = JStr v,
                      operator = Some \<lparr>kind = K, fallback = F\<rparr>, escaped = False\<rparr> #
                 fst (replace_pieces (replacer env opts) after),
               map_sum id (\<lambda>b. a @ v @ b) (snd (replace_pieces (replacer env opts) after))))
         else
           (log @ [\<lparr>placeholder = matched m, name = Some n, rawvalue = JStr v,
                    operator = Some \<lparr>kind = K, fallback = F\<rparr>, escaped = False\<rparr>],
            Inl (mkSyntaxError (''unknown operator: '' @ quoted K))))" for v
  proof -
    assume v: "env_get env n = JStr v"
    then have "\<not> is_nullish (env_get env n)" by simp
    from c3 [OF this] show ?thesis unfolding v by auto
  qed
  from c1 c2 c3 show ?thesis by blast
  qed
  with g show ?thesis
    unfolding Let_def K_def [symmetric] F_def [symmetric] by blast
qed

theorem C2_operator_token_witness:
  "interpolateString ''a${VAR-:x}b$VAR'' (plain_object [''VAR'' \<mapsto> JStr ''value''])
      \<lparr>preserveEscaped = False, preserveUndefined = False\<rparr> =
     ([\<lparr>placeholder = ''${VAR-:x}'', name = Some ''VAR'', rawvalue = JStr ''value'',
        operator = Some \<lparr>kind = ''-:'', fallback = ''x''\<rparr>, escaped = False\<rparr>],
      Inl (mkSyntaxError (''unknown operator: '' @ quoted ''-:''))) \<and>
   interpolateString ''$VAR ${UNSET-?} ${VAR:-?}.'' (plain_object [''VAR'' \<mapsto> JStr ''value''])
      \<lparr>preserveEscaped = False, preserveUndefined = False\<rparr> =
     ([\<lparr>placeholder = ''$VAR'', name = Some ''VAR'', rawvalue = JStr ''value'',
        operator = None, escaped = False\<rparr>,
       \<lparr>placeholder = ''${UNSET-?}'', name = Some ''UNSET'', rawvalue = JUndefined,
        operator = Some \<lparr>kind = ''-'', fallback = ''?''\<rparr>, escaped = False\<rparr>,
       \<lparr>placeholder = ''${VAR:-?}'', name = Some ''VAR'', rawvalue = JStr ''value'',
        operator = Some \<lparr>kind = '':-'', fallback = ''?''\<rparr>, escaped = False\<rparr>],
      Inr ''value ? value.'')"
proof -
  let ?env = "plain_object [''VAR'' \<mapsto> JStr ''value'']"
  let ?opts = "\<lparr>preserveEscaped = False, preserveUndefined = False\<rparr>"
  let ?var = "\<lparr>matched = ''$VAR'',
               groups = \<lparr>g_escaped = None, g_name1 = Some ''VAR'', g_name2 = None,
                         g_kind = None, g_fallback = None\<rparr>\<rparr>"
  let ?m = "\<lambda>t n k f. \<lparr>matched = t,
               groups = \<lparr>g_escaped = None, g_name1 = None, g_name2 = Some n,
                         g_kind = Some k, g_fallback = Some f\<rparr>\<rparr>"
  have s1: "scan ''a${VAR-:x}b$VAR'' =
      [Lit CHR ''a''] @ Hit (?m ''${VAR-:x}'' ''VAR'' ''-:'' ''x'') # [Lit CHR ''b'', Hit ?var]"
    by (simp add: scan.simps rx_eval)
  have b1: "replace_pieces (replacer ?env ?opts) [Lit CHR ''a''] = ([], Inr ''a'')"
    by (simp add: bind_traced_def return_traced_def)
  have t1: "matched (?m ''${VAR-:x}'' ''VAR'' ''-:'' ''x'') = ''${'' @ ''VAR'' @ ''-:'' @ ''x'' @ ''}''"
    by simp
  have s2: "scan ''$VAR ${UNSET-?} ${VAR:-?}.'' =
      [Hit ?var, Lit CHR '' ''] @ Hit (?m ''${UNSET-?}'' ''UNSET'' ''-'' ''?'') #
      [Lit CHR '' '', Hit (?m ''${VAR:-?}'' ''VAR'' '':-'' ''?''), Lit CHR ''.'']"
    by (simp add: scan.simps rx_eval)
  have b2: "replace_pieces (replacer ?env ?opts) [Hit ?var, Lit CHR '' ''] =
      ([\<lparr>placeholder = ''$VAR'', name = Some ''VAR'', rawvalue = JStr ''value'',
          operator = None, escaped = False\<rparr>], Inr ''value '')"
    by (simp add: replacer_eval bind_traced_def return_traced_def)
  have t2: "matched (?m ''${UNSET-?}'' ''UNSET'' ''-'' ''?'') = ''${'' @ ''UNSET'' @ ''-?'' @ [] @ ''}''"
    by simp
  have w1: "interpolateString ''a${VAR-:x}b$VAR'' ?env ?opts =
     ([\<lparr>placeholder = ''${VAR-:x}'', name = Some ''VAR'', rawvalue = JStr ''value'',
        operator = Some \<lparr>kind = ''-:'', fallback = ''x''\<rparr>, escaped = False\<rparr>],
      Inl (mkSyntaxError (''unknown operator: '' @ quoted ''-:'')))"
    using C2_operator_token [OF s1 t1, of ?env ?opts] b1
    by (simp add: is_word_def is_opchar_def not_rbrace_def env_get_def plain_object_def Let_def)
  have w2: "interpolateString ''$VAR ${UNSET-?} ${VAR:-?}.'' ?env ?opts =
     ([\<lparr>placeholder = ''$VAR'', name = Some ''VAR'', rawvalue = JStr ''value'',
        operator = None, escaped = False\<rparr>,
       \<lparr>placeholder = ''${UNSET-?}'', name = Some ''UNSET'', rawvalue = JUndefined,
        operator = Some \<lparr>kind = ''-'', fallback = ''?''\<rparr>, escaped = False\<rparr>,
       \<lparr>placeholder = ''${VAR:-?}'', name = Some ''VAR'', rawvalue = JStr ''value'',
        operator = Some \<lparr>kind = '':-'', fallback = ''?''\<rparr>, escaped = False\<rparr>],
      Inr ''value ? value.'')"
    using C2_operator_token [OF s2 t2, of ?env ?opts] b2
    by (simp add: is_word_def is_opchar_def not_rbrace_def replacer_eval
        bind_traced_def return_traced_def)
  from w1 w2 show ?thesis by (intro conjI)
qed

subsection \<open>C3: the depth of escaping\<close>

text \<open>
  C3 says that \<open>k \<ge> 1\<close> characters \<open>$\<close> followed by a name or a brace form give
  \<open>k - 1\<close> characters \<open>$\<close> and the name or brace form when \<open>preserveEscaped\<close> is off,
  and the input itself when it is on. A single \<open>$\<close> does not escape: \<open>$VAR\<close> is an
  ordinary placeholder, substituted whatever \<open>preserveEscaped\<close> is.
\<close>

theorem C3_counterexample:
  "snd (interpolateString ''$VAR'' (plain_object [''VAR'' \<mapsto> JStr ''value''])
          \<lparr>preserveEscaped = True, preserveUndefined = False\<rparr>) = Inr ''value'' \<and>
   snd (interpolateString ''$VAR'' (plain_object [''VAR'' \<mapsto> JStr ''value''])
          \<lparr>preserveEscaped = True, preserveUndefined = False\<rparr>) \<noteq> Inr ''$VAR''"
  by (simp add: run_eval rx_eval replacer_eval)

text \<open>
  C3 as amended: for \<open>k \<ge> 2\<close> characters \<open>$\<close> followed by a name, by \<open>{NAME}\<close> or by
  \<open>{NAME\<close>, operator characters, fallback text and \<open>}\<close>, the result is the input
  without its first \<open>$\<close> when \<open>preserveEscaped\<close> is off and the input itself when it is
  on, and the call does not fail; for \<open>k = 1\<close> the placeholder is not escaped and the
  result does not depend on \<open>preserveEscaped\<close>.
\<close>

theorem C3_escaping_depth:
  assumes "n \<noteq> []" and "list_all is_word n"
    and "form = n \<or> form = ''{'' @ n @ ''}'' \<or>
         (form = ''{'' @ n @ ops @ f @ ''}'' \<and> ops \<noteq> [] \<and> list_all is_opchar ops \<and>
          f \<noteq> [] \<and> list_all not_rbrace f)"
  shows "(2 \<le> k \<longrightarrow>
           snd (interpolateString (replicate k CHR ''$'' @ form) env opts) =
             Inr (if preserveEscaped opts then replicate k CHR ''$'' @ form
                  else replicate (k - 1) CHR ''$'' @ form)) \<and>
         interpolateString (CHR ''$'' # form) env (opts\<lparr>preserveEscaped := b\<rparr>) =
           interpolateString (CHR ''$'' # form) env opts"
proof (intro conjI impI)
  assume "2 \<le> k"
  then obtain j where k: "k = Suc (Suc j)" by (cases k; cases "k - 1") auto
  from match_at_form [OF assms, of "Suc j"] obtain g
    where m: "match_at (replicate (Suc j) CHR ''$'' @ CHR ''$'' # form) =
               Some (\<lparr>matched = replicate (Suc j) CHR ''$'' @ CHR ''$'' # form, groups = g\<rparr>, [])"
      and g: "g_escaped g = esc_of (Suc j)"
    by blast
  from g have "g_escaped (groups \<lparr>matched = replicate (Suc j) CHR ''$'' @ CHR ''$'' # form,
                 groups = g\<rparr>) \<noteq> None"
    by (simp add: esc_of_def)
  from replacer_escaped [OF m this, of env opts] interpolateString_whole [OF m, of env opts]
  have "snd (interpolateString (replicate (Suc j) CHR ''$'' @ CHR ''$'' # form) env opts) =
        Inr (if preserveEscaped opts then replicate (Suc j) CHR ''$'' @ CHR ''$'' # form
             else replicate j CHR ''$'' @ CHR ''$'' # form)"
    by simp
  with k show "snd (interpolateString (replicate k CHR ''$'' @ form) env opts) =
             Inr (if preserveEscaped opts then replicate k CHR ''$'' @ form
                  else replicate (k - 1) CHR ''$'' @ form)"
    by (simp add: replicate_app_Cons_same)
next
  from match_at_form [OF assms, of 0] obtain g
    where m: "match_at (CHR ''$'' # form) = Some (\<lparr>matched = CHR ''$'' # form, groups = g\<rparr>, [])"
      and g: "g_escaped g = None"
    by (auto simp: esc_of_def)
  from g have "g_escaped (groups \<lparr>matched = CHR ''$'' # form, groups = g\<rparr>) = None" by simp
  from replacer_unescaped [OF this]
  show "interpolateString (CHR ''$'' # form) env (opts\<lparr>preserveEscaped := b\<rparr>) =
        interpolateString (CHR ''$'' # form) env opts"
    by (simp add: interpolateString_whole [OF m])
qed

theorem C3_escaping_depth_witness:
  "snd (interpolateString ''$$${VAR:-x}'' (plain_object [''VAR'' \<mapsto> JStr ''value''])
          \<lparr>preserveEscaped = False, preserveUndefined = False\<rparr>) = Inr ''$${VAR:-x}'' \<and>
   snd (interpolateString ''$$${VAR:-x}'' (plain_object [''VAR'' \<mapsto> JStr ''value''])
          \<lparr>preserveEscaped = True, preserveUndefined = False\<rparr>) = Inr ''$$${VAR:-x}'' \<and>
   snd (interpolateString ''$$VAR'' (plain_object [''VAR'' \<mapsto> JStr ''value''])
          \<lparr>preserveEscaped = False, preserveUndefined = False\<rparr>) = Inr ''$VAR''"
proof -
  let ?env = "plain_object [''VAR'' \<mapsto> JStr ''value'']"
  have n: "''VAR'' \<noteq> []" "list_all is_word ''VAR''"
    by (simp_all add: is_word_def)
  have f1: "''{VAR:-x}'' = ''VAR'' \<or> ''{VAR:-x}'' = ''{'' @ ''VAR'' @ ''}'' \<or>
         (''{VAR:-x}'' = ''{'' @ ''VAR'' @ '':-'' @ ''x'' @ ''}'' \<and> '':-'' \<noteq> [] \<and>
          list_all is_opchar '':-'' \<and> ''x'' \<noteq> [] \<and> list_all not_rbrace ''x'')"
    by (simp add: is_opchar_def not_rbrace_def)
  have f2: "''VAR'' = ''VAR'' \<or> ''VAR'' = ''{'' @ ''VAR'' @ ''}'' \<or>
         (''VAR'' = ''{'' @ ''VAR'' @ [] @ [] @ ''}'' \<and> [] \<noteq> [] \<and>
          list_all is_opchar [] \<and> [] \<noteq> [] \<and> list_all not_rbrace [])"
    by simp
  from C3_escaping_depth [OF n f1, of 3 ?env "\<lparr>preserveEscaped = False, preserveUndefined = False\<rparr>"]
    C3_escaping_depth [OF n f1, of 3 ?env "\<lparr>preserveEscaped = True, preserveUndefined = False\<rparr>"]
    C3_escaping_depth [OF n f2, of 2 ?env "\<lparr>preserveEscaped = False, preserveUndefined = False\<rparr>"]
  show ?thesis
    by (simp add: numeral_3_eq_3 numeral_2_eq_2)
qed

subsection \<open>C4: the operators \<open>?\<close> and \<open>:?\<close>\<close>



subsection \<open>C5: the operators \<open>-\<close> and \<open>:-\<close>\<close>



subsection \<open>C6: \<open>preserveUndefined\<close>\<close>



subsection \<open>C7: an environment with none of the names\<close>

text \<open>
  C7 says that with \<open>preserveUndefined\<close> and \<open>preserveEscaped\<close> both set,
  \<open>interpolate\<close> returns the value it was given when the environment contains none
  of the names the value's placeholders refer to. The source reads \<open>env[name]\<close>, which
  also finds what the environment inherits: the empty object literal has no entry
  \<open>constructor\<close>, and \<open>$constructor\<close> is replaced by the text of the function
  \<open>Object\<close>. And \<open>isObject\<close> calls \<open>toString\<close> on the value: a mapping with a key
  \<open>toString\<close> whose value is not a function, and no placeholder at all, makes the call
  fail with a \<open>TypeError\<close>.
\<close>

theorem C7_inherited_name_substituted:
  "referenced (VStr ''$constructor'' :: unit jvalue) = [''constructor''] \<and>
   own (plain_object Map.empty) ''constructor'' = None \<and>
   snd (interpolate (VStr ''$constructor'' :: unit jvalue) (plain_object Map.empty)
          (Some \<lparr>opt_preserveEscaped = Some True, opt_preserveUndefined = Some True\<rparr>)) =
     Inr (VStr ''function Object() { [native code] }'') \<and>
   referenced (VObj PlainProto [(''toString'', VStr ''x'')] :: unit jvalue) = [] \<and>
   snd (interpolate (VObj PlainProto [(''toString'', VStr ''x'')] :: unit jvalue)
          (plain_object Map.empty)
          (Some \<lparr>opt_preserveEscaped = Some True, opt_preserveUndefined = Some True\<rparr>)) =
     Inl TypeError"
  by (simp add: interpolate_def makeInterpolator_def mergeOptions_def names_of_string_def
      isObject_def toString_call_def run_eval rx_eval replacer_eval)

subsection \<open>C8: the shape of the result\<close>

text \<open>
  C8 says that a value that is not a string, a sequence or a plain mapping is returned
  identically. The test of the source for a mapping is \<open>isObject\<close>: an object whose
  \<open>toString()\<close> is \<open>[object Object]\<close>. An instance of a class that does not define
  \<open>toString\<close> passes it, and what comes back is not the instance but an object literal
  with its entries.
\<close>

theorem C8_counterexample:
  "interpolate (VObj (OtherProto ''[object Object]'') [(''k'', VStr ''x'')] :: unit jvalue)
      (plain_object Map.empty) None =
     ([], Inr (VObj PlainProto [(''k'', VStr ''x'')])) \<and>
   (VObj PlainProto [(''k'', VStr ''x'')] :: unit jvalue) \<noteq>
     VObj (OtherProto ''[object Object]'') [(''k'', VStr ''x'')]"
  by (simp add: interpolate_def makeInterpolator_def mergeOptions_def
      isObject_def toString_call_def run_eval rx_eval)

text \<open>
  C8 as amended: when \<open>interpolate\<close> returns, an array has become an array of the same
  length whose \<open>i\<close>-th element is the result for the \<open>i\<close>-th element; an object on
  which \<open>isObject\<close> holds has become an object literal with the same keys in the same
  order (the keys themselves untouched) whose \<open>i\<close>-th value is the result for the
  \<open>i\<close>-th value; and an object on which \<open>isObject\<close> is false, a function and a
  primitive that is not a string are returned as they are, with no call of the callback.
  \<open>isObject\<close> holds of an object literal with no key \<open>toString\<close>, and of any other
  object exactly when the text its \<open>toString\<close> returns is \<open>[object Object]\<close>, the
  method being its own entry of that name or, without one, the inherited one.
\<close>

theorem C8_structure_preserved:
  "(snd (interpolate (VArr xs) env options) = Inr v' \<longrightarrow>
      (\<exists>ys. v' = VArr ys \<and> length ys = length xs \<and>
         (\<forall>i<length xs. snd (interpolate (xs ! i) env options) = Inr (ys ! i)))) \<and>
   (isObject p kvs = Inr True \<longrightarrow>
    snd (interpolate (VObj p kvs) env options) = Inr v' \<longrightarrow>
      (\<exists>kvs'. v' = VObj PlainProto kvs' \<and> map fst kvs' = map fst kvs \<and>
         (\<forall>i<length kvs.
            snd (interpolate (snd (kvs ! i)) env options) = Inr (snd (kvs' ! i))))) \<and>
   ((\<forall>s. v \<noteq> VStr s) \<and> (\<forall>ys. v \<noteq> VArr ys) \<and>
    (\<forall>q es. v = VObj q es \<longrightarrow> isObject q es = Inr False) \<longrightarrow>
      interpolate v env options = ([], Inr v)) \<and>
   (map_of kvs ''toString'' = None \<longrightarrow>
      isObject PlainProto kvs = Inr True \<and>
      isObject (OtherProto t') kvs = Inr (t' = ''[object Object]'')) \<and>
   (map_of kvs ''toString'' = Some (VFun t') \<longrightarrow>
      isObject p kvs = Inr (t' = ''[object Object]''))"
proof (intro conjI impI)
  assume "snd (interpolate (VArr xs) env options) = Inr v'"
  then obtain ys where ys: "snd (interpolate0_map xs env (mergeOptions options)) = Inr ys"
    and v': "v' = VArr ys"
    by (auto simp: interpolate_def makeInterpolator_def snd_bind_traced split: sum.splits)
  from interpolate0_map_shape [OF ys]
  have "length ys = length xs \<and>
        (\<forall>i<length xs. snd (interpolate (xs ! i) env options) = Inr (ys ! i))"
    by (simp add: list_all2_conv_all_nth interpolate_def makeInterpolator_def)
  with v' show "\<exists>ys. v' = VArr ys \<and> length ys = length xs \<and>
         (\<forall>i<length xs. snd (interpolate (xs ! i) env options) = Inr (ys ! i))"
    by blast
next
  assume "isObject p kvs = Inr True" and "snd (interpolate (VObj p kvs) env options) = Inr v'"
  then obtain kvs' where r: "snd (interpolate0_entries kvs env (mergeOptions options)) = Inr kvs'"
    and v': "v' = VObj PlainProto kvs'"
    by (auto simp: interpolate_def makeInterpolator_def snd_bind_traced split: sum.splits)
  from interpolate0_entries_shape [OF r]
  have a: "length kvs = length kvs'"
    and b: "\<forall>i<length kvs. fst (kvs' ! i) = fst (kvs ! i) \<and>
              snd (interpolate0 (snd (kvs ! i)) env (mergeOptions options)) = Inr (snd (kvs' ! i))"
    by (simp_all add: list_all2_conv_all_nth)
  from a b have "map fst kvs' = map fst kvs"
    by (intro nth_equalityI) simp_all
  with b v' show "\<exists>kvs'. v' = VObj PlainProto kvs' \<and> map fst kvs' = map fst kvs \<and>
         (\<forall>i<length kvs.
            snd (interpolate (snd (kvs ! i)) env options) = Inr (snd (kvs' ! i)))"
    by (simp add: interpolate_def makeInterpolator_def)
next
  assume "(\<forall>s. v \<noteq> VStr s) \<and> (\<forall>ys. v \<noteq> VArr ys) \<and>
    (\<forall>q es. v = VObj q es \<longrightarrow> isObject q es = Inr False)"
  then show "interpolate v env options = ([], Inr v)"
    by (cases v) (simp_all add: interpolate_def makeInterpolator_def return_traced_def)
next
  assume "map_of kvs ''toString'' = None"
  then show "isObject PlainProto kvs = Inr True"
    and "isObject (OtherProto t') kvs = Inr (t' = ''[object Object]'')"
    by (simp_all add: isObject_cases)
next
  assume "map_of kvs ''toString'' = Some (VFun t')"
  then show "isObject p kvs = Inr (t' = ''[object Object]'')"
    by (simp add: isObject_cases)
qed

theorem C8_structure_preserved_witness:
  "snd (interpolate
          (VArr [VStr ''$VAR'',
                 VObj PlainProto [(''$VAR'', VStr ''${VAR}''), (''b'', VOther (5::nat))],
                 VObj (OtherProto ''[object Object]'') [(''k'', VStr ''$VAR'')],
                 VObj (OtherProto ''1970-01-01'') [(''d'', VStr ''$VAR'')]])
          (plain_object [''VAR'' \<mapsto> JStr ''value'']) None) =
     Inr (VArr [VStr ''value'',
                VObj PlainProto [(''$VAR'', VStr ''value''), (''b'', VOther 5)],
                VObj PlainProto [(''k'', VStr ''value'')],
                VObj (OtherProto ''1970-01-01'') [(''d'', VStr ''$VAR'')]]) \<and>
   (\<exists>ys. VArr [VStr ''value'',
                VObj PlainProto [(''$VAR'', VStr ''value''), (''b'', VOther (5::nat))],
                VObj PlainProto [(''k'', VStr ''value'')],
                VObj (OtherProto ''1970-01-01'') [(''d'', VStr ''$VAR'')]] = VArr ys \<and>
      length ys = 4 \<and>
      (\<forall>i<4. snd (interpolate
                     ([VStr ''$VAR'',
                       VObj PlainProto [(''$VAR'', VStr ''${VAR}''), (''b'', VOther (5::nat))],
                       VObj (OtherProto ''[object Object]'') [(''k'', VStr ''$VAR'')],
                       VObj (OtherProto ''1970-01-01'') [(''d'', VStr ''$VAR'')]] ! i)
                     (plain_object [''VAR'' \<mapsto> JStr ''value'']) None) = Inr (ys ! i))) \<and>
   interpolate (VObj (OtherProto ''1970-01-01'') [(''d'', VStr ''$VAR'')] :: nat jvalue)
     (plain_object [''VAR'' \<mapsto> JStr ''value'']) None =
     ([], Inr (VObj (OtherProto ''1970-01-01'') [(''d'', VStr ''$VAR'')]))"
proof -
  let ?date = "VObj (OtherProto ''1970-01-01'') [(''d'', VStr ''$VAR'')] :: nat jvalue"
  let ?xs = "[VStr ''$VAR'',
              VObj PlainProto [(''$VAR'', VStr ''${VAR}''), (''b'', VOther (5::nat))],
              VObj (OtherProto ''[object Object]'') [(''k'', VStr ''$VAR'')],
              ?date]"
  let ?v' = "VArr [VStr ''value'',
                   VObj PlainProto [(''$VAR'', VStr ''value''), (''b'', VOther (5::nat))],
                   VObj PlainProto [(''k'', VStr ''value'')],
                   ?date]"
  let ?env = "plain_object [''VAR'' \<mapsto> JStr ''value'']"
  have s1: "interpolateString ''$VAR'' ?env (mergeOptions None) =
            ([\<lparr>placeholder = ''$VAR'', name = Some ''VAR'', rawvalue = JStr ''value'',
               operator = None, escaped = False\<rparr>], Inr ''value'')"
    by (simp add: mergeOptions_def run_eval rx_eval replacer_eval)
  have s2: "interpolateString ''${VAR}'' ?env (mergeOptions None) =
            ([\<lparr>placeholder = ''${VAR}'', name = Some ''VAR'', rawvalue = JStr ''value'',
               operator = None, escaped = False\<rparr>], Inr ''value'')"
    by (simp add: mergeOptions_def run_eval rx_eval replacer_eval)
  have run: "snd (interpolate (VArr ?xs) ?env None) = Inr ?v'"
    by (simp add: interpolate_def makeInterpolator_def s1 s2 bind_traced_def return_traced_def
        isObject_def toString_call_def)
  from C8_structure_preserved [of ?xs ?env None ?v', THEN conjunct1, THEN mp, OF run]
  have shape: "\<exists>ys. ?v' = VArr ys \<and> length ys = 4 \<and>
      (\<forall>i<4. snd (interpolate (?xs ! i) ?env None) = Inr (ys ! i))"
    by simp
  have "isObject (OtherProto ''1970-01-01'') [(''d'', VStr ''$VAR'' :: nat jvalue)] = Inr False"
    by (simp add: isObject_def toString_call_def)
  then have "(\<forall>s. ?date \<noteq> VStr s) \<and> (\<forall>ys. ?date \<noteq> VArr ys) \<and>
    (\<forall>q es. ?date = VObj q es \<longrightarrow> isObject q es = Inr False)"
    by simp
  from C8_structure_preserved [of _ ?env None _ _ _ ?date,
      THEN conjunct2, THEN conjunct2, THEN conjunct1, THEN mp, OF this]
  have same: "interpolate ?date ?env None = ([], Inr ?date)" .
  from run shape same show ?thesis by (intro conjI)
qed

subsection \<open>C9: environment values that are not strings\<close>

text \<open>
  C9 says that a stored value that is neither \<open>null\<close> nor a string is emitted in its
  string form, the number 0 as \<open>0\<close>. The source computes
  \<open>(rawValue || '').toString()\<close> (line 184, "force string for substitute"): a
  truthy value is emitted in its string form (the test suite has the number 5), but a
  falsy one, such as the number 0, is replaced by the empty string before \<open>toString\<close> is
  called. The name still counts as defined: the callback receives the number.
\<close>

theorem C9_zero_emitted_as_empty:
  "interpolateString ''$ZERO'' (plain_object [''ZERO'' \<mapsto> JNum 0]) opts =
     ([\<lparr>placeholder = ''$ZERO'', name = Some ''ZERO'', rawvalue = JNum 0,
        operator = None, escaped = False\<rparr>], Inr []) \<and>
   toString (JNum 0) = ''0''"
  by (simp add: run_eval rx_eval replacer_eval digits.simps digit_char_def)

lemma number_five_emitted:
  "snd (interpolateString ''$NUMBER'' (plain_object [''NUMBER'' \<mapsto> JNum 5]) opts) = Inr ''5''"
  by (simp add: run_eval rx_eval replacer_eval digits.simps digit_char_def)

subsection \<open>C10: the callback and a failing placeholder\<close>

text \<open>
  C10: when \<open>interpolateString\<close> fails, it fails at one of the matches of the input, say
  the \<open>k\<close>-th from the left: the replacer throws there and returned normally on the
  \<open>k - 1\<close> matches before it, and the callback has been called exactly once for each of
  the first \<open>k\<close> matches, in their order, the failing one included (the record of the
  \<open>j\<close>-th call is the one the replacer builds for the \<open>j\<close>-th match). The error is a
  \<open>ValueError\<close> or the unknown-operator \<open>SyntaxError\<close>; no other failure is possible.
\<close>

theorem C10_callback_before_failure:
  assumes "interpolateString s env opts = (log, Inl e)"
  shows "\<exists>k. 0 < k \<and> k \<le> length (hits (scan s)) \<and>
           snd (replacer env opts (hits (scan s) ! (k - 1))) = Inl e \<and>
           (\<forall>j<k - 1. \<exists>t. snd (replacer env opts (hits (scan s) ! j)) = Inr t) \<and>
           list_all2 (\<lambda>m ev. fst (replacer env opts m) = [ev] \<and> placeholder ev = matched m)
             (take k (hits (scan s))) log \<and>
           ((\<exists>msg. e = ValueError msg) \<or>
            (\<exists>kd. e = mkSyntaxError (''unknown operator: '' @ quoted kd)))"
proof -
  let ?ms = "hits (scan s)"
  from assms have "replace_pieces (replacer env opts) (scan s) = (log, Inl e)"
    by (simp add: interpolateString_def)
  from replace_pieces_fails [OF this]
  obtain k where k: "k < length ?ms" "snd (replacer env opts (?ms ! k)) = Inl e"
    "\<forall>j<k. \<exists>t. snd (replacer env opts (?ms ! j)) = Inr t"
    "log = concat (map (\<lambda>m. fst (replacer env opts m)) (take (Suc k) ?ms))"
    by blast
  have once: "\<forall>m \<in> set (take (Suc k) ?ms).
                \<exists>ev. fst (replacer env opts m) = [ev] \<and> placeholder ev = matched m"
  proof
    fix m assume "m \<in> set (take (Suc k) ?ms)"
    then have "m \<in> set ?ms" by (rule in_set_takeD)
    from hits_scan_match [OF this] obtain s' r where "match_at s' = Some (m, r)" by blast
    from replacer_calls_once [OF this, of env opts]
    show "\<exists>ev. fst (replacer env opts m) = [ev] \<and> placeholder ev = matched m" by blast
  qed
  from k(1) have "?ms ! k \<in> set ?ms" by simp
  from hits_scan_match [OF this] obtain s' r where "match_at s' = Some (?ms ! k, r)" by blast
  from replacer_error_kinds [OF this k(2)]
  have kinds: "(\<exists>msg. e = ValueError msg) \<or>
               (\<exists>kd. e = mkSyntaxError (''unknown operator: '' @ quoted kd))" .
  from list_all2_concat_singletons [OF once] k(4)
  have "list_all2 (\<lambda>m ev. fst (replacer env opts m) = [ev] \<and> placeholder ev = matched m)
          (take (Suc k) ?ms) log"
    by simp
  with k(1-3) kinds
  have "0 < Suc k \<and> Suc k \<le> length ?ms \<and>
        snd (replacer env opts (?ms ! (Suc k - 1))) = Inl e \<and>
        (\<forall>j<Suc k - 1. \<exists>t. snd (replacer env opts (?ms ! j)) = Inr t) \<and>
        list_all2 (\<lambda>m ev. fst (replacer env opts m) = [ev] \<and> placeholder ev = matched m)
          (take (Suc k) ?ms) log \<and>
        ((\<exists>msg. e = ValueError msg) \<or>
         (\<exists>kd. e = mkSyntaxError (''unknown operator: '' @ quoted kd)))"
    by simp
  then show ?thesis by blast
qed

theorem C10_callback_before_failure_witness:
  "interpolateString ''$VAR ${UNSET?gone} $LATER'' (plain_object [''VAR'' \<mapsto> JStr ''value''])
      \<lparr>preserveEscaped = False, preserveUndefined = False\<rparr> =
     ([\<lparr>placeholder = ''$VAR'', name = Some ''VAR'', rawvalue = JStr ''value'',
         operator = None, escaped = False\<rparr>,
       \<lparr>placeholder = ''${UNSET?gone}'', name = Some ''UNSET'', rawvalue = JUndefined,
         operator = Some \<lparr>kind = ''?'', fallback = ''gone''\<rparr>, escaped = False\<rparr>],
      Inl (ValueError ''gone'')) \<and>
   (\<exists>k. 0 < k \<and> k \<le> length (hits (scan ''$VAR ${UNSET?gone} $LATER'')) \<and>
      list_all2 (\<lambda>m ev. placeholder ev = matched m)
        (take k (hits (scan ''$VAR ${UNSET?gone} $LATER'')))
        [\<lparr>placeholder = ''$VAR'', name = Some ''VAR'', rawvalue = JStr ''value'',
           operator = None, escaped = False\<rparr>,
         \<lparr>placeholder = ''${UNSET?gone}'', name = Some ''UNSET'', rawvalue = JUndefined,
           operator = Some \<lparr>kind = ''?'', fallback = ''gone''\<rparr>, escaped = False\<rparr>])"
proof -
  let ?env = "plain_object [''VAR'' \<mapsto> JStr ''value'']"
  let ?opts = "\<lparr>preserveEscaped = False, preserveUndefined = False\<rparr>"
  let ?log = "[\<lparr>placeholder = ''$VAR'', name = Some ''VAR'', rawvalue = JStr ''value'',
         operator = None, escaped = False\<rparr>,
       \<lparr>placeholder = ''${UNSET?gone}'', name = Some ''UNSET'', rawvalue = JUndefined,
         operator = Some \<lparr>kind = ''?'', fallback = ''gone''\<rparr>, escaped = False\<rparr>]"
  have run: "interpolateString ''$VAR ${UNSET?gone} $LATER'' ?env ?opts =
             (?log, Inl (ValueError ''gone''))"
    by (simp add: run_eval rx_eval replacer_eval)
  from C10_callback_before_failure [OF run]
  obtain k where "0 < k" "k \<le> length (hits (scan ''$VAR ${UNSET?gone} $LATER''))"
    "list_all2 (\<lambda>m ev. fst (replacer ?env ?opts m) = [ev] \<and> placeholder ev = matched m)
       (take k (hits (scan ''$VAR ${UNSET?gone} $LATER''))) ?log"
    by blast
  then have "0 < k \<and> k \<le> length (hits (scan ''$VAR ${UNSET?gone} $LATER'')) \<and>
    list_all2 (\<lambda>m ev. placeholder ev = matched m)
       (take k (hits (scan ''$VAR ${UNSET?gone} $LATER''))) ?log"
    by (auto elim: list_all2_mono)
  with run show ?thesis by blast
qed

end
